theory Spec2Isabelle
  imports Complex_Main
begin

section \<open>Errors\<close>

text \<open>
  The exceptions the modelled Python code can raise, as values. A function that can raise
  returns \<open>error + 'a\<close>, with \<open>Inl\<close> for the exception.
\<close>

datatype error = RuntimeError | AssertionError

section \<open>Real-Time Chunking: the prefix weight builder\<close>

text \<open>
  \<^verbatim>\<open>modeling_rtc.py\<close>, class \<^verbatim>\<open>RTCProcessor\<close>. Tensor entries are modelled as exact
  real numbers. The enum \<^verbatim>\<open>RTCAttentionSchedule\<close> and the configuration class
  \<^verbatim>\<open>RTCConfig\<close> are declared outside the files at hand; the record below holds the
  fields the processor reads.
\<close>

datatype RTCAttentionSchedule = ZEROS | ONES | LINEAR | EXP

record RTCConfig =
  execution_horizon :: int
  max_guidance_weight :: real
  prefix_attention_schedule :: RTCAttentionSchedule

text \<open>
  \<^verbatim>\<open>torch.zeros(n)\<close> and \<^verbatim>\<open>torch.ones(n)\<close> raise on a negative size.
\<close>

definition torch_zeros :: "int \<Rightarrow> error + real list" where
  "torch_zeros n = (if n < 0 then Inl RuntimeError else Inr (replicate (nat n) 0))"

definition torch_ones :: "int \<Rightarrow> error + real list" where
  "torch_ones n = (if n < 0 then Inl RuntimeError else Inr (replicate (nat n) 1))"

text \<open>
  A slice bound of Python, for a sequence of length \<open>n\<close>: a negative bound counts from the
  end, and every bound is clipped to \<open>0..n\<close>.
\<close>

definition slice_bound :: "nat \<Rightarrow> int \<Rightarrow> nat" where
  "slice_bound n i = (if i < 0 then nat (max (int n + i) 0) else min (nat i) n)"

text \<open>\<^verbatim>\<open>weights[:i] = v\<close> and \<^verbatim>\<open>weights[i:] = v\<close>.\<close>

definition assign_upto :: "real list \<Rightarrow> int \<Rightarrow> real \<Rightarrow> real list" where
  "assign_upto weights i v =
     (let k = slice_bound (length weights) i in replicate k v @ drop k weights)"

definition assign_from :: "real list \<Rightarrow> int \<Rightarrow> real \<Rightarrow> real list" where
  "assign_from weights i v =
     (let k = slice_bound (length weights) i in take k weights @ replicate (length weights - k) v)"

text \<open>
  \<^verbatim>\<open>torch.linspace(a, b, steps)\<close>: \<open>steps\<close> evenly spaced points from \<open>a\<close> to \<open>b\<close>, both
  included. The slice \<^verbatim>\<open>[1:-1]\<close> drops the first and the last element.
\<close>

definition torch_linspace :: "real \<Rightarrow> real \<Rightarrow> nat \<Rightarrow> real list" where
  "torch_linspace a b steps =
     (if steps = 1 then [a]
      else map (\<lambda>i. a + (b - a) * real i / real (steps - 1)) [0..<steps])"

definition slice_1_m1 :: "'a list \<Rightarrow> 'a list" where
  "slice_1_m1 xs = butlast (tl xs)"

definition linweights :: "int \<Rightarrow> int \<Rightarrow> int \<Rightarrow> real list" where
  "linweights start end total' =
     (let skip_steps_at_end = max (total' - end) 0;
          linspace_steps = total' - skip_steps_at_end - start
      in if end \<le> start \<or> linspace_steps \<le> 0 then []
         else slice_1_m1 (torch_linspace 1 0 (nat (linspace_steps + 2))))"

definition add_trailing_zeros :: "real list \<Rightarrow> int \<Rightarrow> int \<Rightarrow> real list" where
  "add_trailing_zeros weights total' end =
     (let zeros_len = total' - end
      in if zeros_len \<le> 0 then weights else weights @ replicate (nat zeros_len) 0)"

definition add_leading_ones :: "real list \<Rightarrow> int \<Rightarrow> int \<Rightarrow> real list" where
  "add_leading_ones weights start total' =
     (let ones_len = min start total'
      in if ones_len \<le> 0 then weights else replicate (nat ones_len) 1 @ weights)"

definition get_prefix_weights :: "RTCConfig \<Rightarrow> int \<Rightarrow> int \<Rightarrow> int \<Rightarrow> error + real list" where
  "get_prefix_weights cfg start0 end total' =
     (let start = min start0 end
      in case prefix_attention_schedule cfg of
           ZEROS \<Rightarrow>
             (case torch_zeros total' of
                Inl e \<Rightarrow> Inl e
              | Inr weights \<Rightarrow> Inr (assign_upto weights start 1))
         | ONES \<Rightarrow>
             (case torch_ones total' of
                Inl e \<Rightarrow> Inl e
              | Inr weights \<Rightarrow> Inr (assign_from weights end 0))
         | LINEAR \<Rightarrow>
             (let lin_weights = linweights start end total';
                  weights = add_trailing_zeros lin_weights total' end
              in Inr (add_leading_ones weights start total'))
         | EXP \<Rightarrow>
             (let lin_weights = linweights start end total';
                  lin_weights = map (\<lambda>r. r * ((exp r - 1) / (exp 1 - 1))) lin_weights;
                  weights = add_trailing_zeros lin_weights total' end
              in Inr (add_leading_ones weights start total')))"

section \<open>Real-Time Chunking: the guidance weight\<close>

text \<open>
  The scalar weight of \<^verbatim>\<open>denoise_step\<close> is computed on torch tensors, where a division by
  zero does not raise: it yields an infinity or NaN. A value of such a computation is a
  finite number, modelled as an exact real, or one of the three special values. The zeros
  that occur here are results of \<open>1 - 1\<close> and of squares, hence positive zeros.
\<close>

datatype tval = Fin real | PInf | NInf | NaN

text \<open>Division of two finite numbers, and the product of a finite number and a value.\<close>

definition tdiv :: "real \<Rightarrow> real \<Rightarrow> tval" where
  "tdiv x y =
     (if y \<noteq> 0 then Fin (x / y)
      else if 0 < x then PInf
      else if x < 0 then NInf
      else NaN)"

fun tmul :: "real \<Rightarrow> tval \<Rightarrow> tval" where
  "tmul x (Fin y) = Fin (x * y)"
| "tmul x PInf = (if 0 < x then PInf else if x < 0 then NInf else NaN)"
| "tmul x NInf = (if 0 < x then NInf else if x < 0 then PInf else NaN)"
| "tmul x NaN = NaN"

text \<open>
  \<^verbatim>\<open>torch.nan_to_num(input, nan=0.0, posinf=None, neginf=None)\<close> replaces NaN by \<open>nan\<close>,
  whose default is zero, positive infinity by \<open>posinf\<close> and negative infinity by \<open>neginf\<close>,
  whose default is the least finite value of the dtype. The code passes \<open>posinf\<close> only;
  a tensor made from a Python float has dtype float32.
\<close>

definition nan_to_num :: "tval \<Rightarrow> real \<Rightarrow> real \<Rightarrow> real \<Rightarrow> real" where
  "nan_to_num x nan posinf neginf =
     (case x of Fin r \<Rightarrow> r | PInf \<Rightarrow> posinf | NInf \<Rightarrow> neginf | NaN \<Rightarrow> nan)"

definition float32_lowest :: real where
  "float32_lowest = - ((2 - 1 / 2 ^ 23) * 2 ^ 127)"

text \<open>Step 8 of \<^verbatim>\<open>denoise_step\<close>: the guidance weight at normalized time \<open>time\<close>.\<close>

definition guidance_weight :: "RTCConfig \<Rightarrow> real \<Rightarrow> real" where
  "guidance_weight cfg time =
     (let tau = 1 - time;
          max_guidance_weight = max_guidance_weight cfg;
          tau_tensor = tau;
          squared_one_minus_tau = (1 - tau_tensor)\<^sup>2;
          inv_r2 = tdiv (squared_one_minus_tau + tau_tensor\<^sup>2) squared_one_minus_tau;
          c = nan_to_num (tdiv (1 - tau_tensor) tau_tensor) 0 max_guidance_weight float32_lowest;
          guidance_weight = nan_to_num (tmul c inv_r2) 0 max_guidance_weight float32_lowest
      in min guidance_weight max_guidance_weight)"

section \<open>Real-Time Chunking: tensors and the autograd graph\<close>

text \<open>
  A chunk tensor has shape \<open>(B, T, A)\<close>, or \<open>(T, A)\<close> when the batch dimension is left
  out; it is modelled as nested lists of exact reals. \<open>shape3\<close> reads the shape off the
  first elements, \<open>dims\<close> is the length of every row.
\<close>

type_synonym tensor3 = "real list list list"

datatype tensor = T2 "real list list" | T3 tensor3

definition shape3 :: "tensor3 \<Rightarrow> nat \<times> nat \<times> nat" where
  "shape3 x =
     (length x,
      (case x of [] \<Rightarrow> 0 | m # _ \<Rightarrow> length m),
      (case x of (r # _) # _ \<Rightarrow> length r | _ \<Rightarrow> 0))"

definition dims :: "tensor3 \<Rightarrow> nat list list" where
  "dims x = map (map length) x"

text \<open>\<^verbatim>\<open>if len(t.shape) < 3: t = t.unsqueeze(0)\<close>, and \<^verbatim>\<open>t.squeeze(0)\<close>.\<close>

definition unsqueeze_to_3d :: "tensor \<Rightarrow> tensor3" where
  "unsqueeze_to_3d t = (case t of T2 m \<Rightarrow> [m] | T3 x \<Rightarrow> x)"

definition squeeze0 :: "tensor3 \<Rightarrow> tensor" where
  "squeeze0 r = (case r of [m] \<Rightarrow> T2 m | _ \<Rightarrow> T3 r)"

text \<open>
  Elementwise difference of two tensors of one shape, the product with a scalar, and the
  product with the weight vector, which the code reshapes to \<open>(1, T, 1)\<close>.
\<close>

definition t_sub :: "tensor3 \<Rightarrow> tensor3 \<Rightarrow> tensor3" where
  "t_sub a b = map2 (map2 (map2 (\<lambda>u v. u - v))) a b"

definition t_scale :: "real \<Rightarrow> tensor3 \<Rightarrow> tensor3" where
  "t_scale c a = map (map (map (\<lambda>v. c * v))) a"

definition t_mul_weights :: "tensor3 \<Rightarrow> real list \<Rightarrow> tensor3" where
  "t_mul_weights a w = map (\<lambda>m. map2 (\<lambda>row wt. map (\<lambda>v. v * wt) row) m w) a"

text \<open>
  Broadcasting, as torch applies it to \<^verbatim>\<open>a - b\<close>: along every dimension the two sizes are
  equal, or one of them is 1 and that operand is repeated; otherwise the operation raises,
  which is \<open>None\<close> here. The sizes are the lengths of the nested lists, so a tensor that is
  empty along a dimension has no sizes below it.
\<close>

definition bzip :: "('a \<Rightarrow> 'b \<Rightarrow> 'c option) \<Rightarrow> 'a list \<Rightarrow> 'b list \<Rightarrow> 'c list option" where
  "bzip f xs ys =
     (if length xs = length ys then those (map2 f xs ys)
      else if length xs = 1 then those (map (f (hd xs)) ys)
      else if length ys = 1 then those (map (\<lambda>x. f x (hd ys)) xs)
      else None)"

definition b_sub :: "tensor3 \<Rightarrow> tensor3 \<Rightarrow> tensor3 option" where
  "b_sub a b = bzip (bzip (bzip (\<lambda>u v. Some (u - v)))) a b"

text \<open>
  The transpose of broadcasting, which autograd applies to a gradient that reaches a
  broadcast operand: the gradient is summed along every dimension in which the operand,
  of the shape \<open>d\<close>, was repeated.
\<close>

definition sum_rows :: "real list list \<Rightarrow> real list" where
  "sum_rows rows = (case rows of [] \<Rightarrow> [] | r # rs \<Rightarrow> foldl (map2 (\<lambda>u v. u + v)) r rs)"

definition sum_mats :: "tensor3 \<Rightarrow> real list list" where
  "sum_mats ms = (case ms of [] \<Rightarrow> [] | m # rest \<Rightarrow> foldl (map2 (map2 (\<lambda>u v. u + v))) m rest)"

definition reduce_row :: "nat \<Rightarrow> real list \<Rightarrow> real list" where
  "reduce_row n r = (if length r = n then r else replicate n (sum_list r))"

definition reduce_mat :: "nat list \<Rightarrow> real list list \<Rightarrow> real list list" where
  "reduce_mat ns m =
     (if length m = length ns then map2 reduce_row ns m
      else map (\<lambda>n. reduce_row n (sum_rows m)) ns)"

definition sum_to_dims :: "nat list list \<Rightarrow> tensor3 \<Rightarrow> tensor3" where
  "sum_to_dims d u =
     (if length u = length d then map2 reduce_mat d u
      else map (\<lambda>ns. reduce_mat ns (sum_mats u)) d)"

text \<open>
  \<^verbatim>\<open>padded = torch.zeros(B, T, A); padded[:, :T', :A'] = prev\<close>: the slice assignment
  raises unless \<open>prev\<close> fits the slice, with a batch of one broadcast to \<open>B\<close>.
\<close>

definition zero_pad :: "nat \<Rightarrow> nat \<Rightarrow> tensor3 \<Rightarrow> tensor3" where
  "zero_pad action_chunk_size action_dim prev =
     map (\<lambda>m. map (\<lambda>r. r @ replicate (action_dim - length r) 0) m
               @ replicate (action_chunk_size - length m) (replicate action_dim 0))
       prev"

definition pad_prev :: "nat \<Rightarrow> nat \<Rightarrow> nat \<Rightarrow> tensor3 \<Rightarrow> error + tensor3" where
  "pad_prev batch_size action_chunk_size action_dim prev =
     (case shape3 prev of (prev_b, prev_t, prev_a) \<Rightarrow>
        if prev_t \<le> action_chunk_size \<and> prev_a \<le> action_dim
           \<and> (prev_b = batch_size \<or> prev_b = 1)
        then Inr (zero_pad action_chunk_size action_dim
                    (if prev_b = batch_size then prev else replicate batch_size (hd prev)))
        else Inl RuntimeError)"

text \<open>
  The base denoiser \<^verbatim>\<open>original_denoise_step_partial\<close> is a differentiable torch callable:
  \<open>forward\<close> is the map it computes, and \<open>backward x u\<close> is the product of its transposed
  Jacobian at \<open>x\<close> with an upstream gradient \<open>u\<close>, which autograd would use for a
  velocity recorded in the graph. A callable may also hand back the very tensor it was
  given instead of a new one: \<open>output_is_input\<close> tells for which arguments it does, and
  \<open>forward\<close> returns its argument there. The callable reads its argument and does not write
  to it.
\<close>

record denoiser =
  forward :: "tensor \<Rightarrow> tensor"
  backward :: "tensor3 \<Rightarrow> tensor3 \<Rightarrow> tensor3"
  output_is_input :: "tensor \<Rightarrow> bool"

text \<open>
  A tensor together with its place in the autograd graph of the input \<open>x_t\<close>:
  \<open>Detached\<close> when no path leads from it to \<open>x_t\<close>, \<open>Leaf\<close> for \<open>x_t\<close> itself once it
  requires gradients. An operation records a node only when an operand is recorded; a
  difference records the shapes of its operands, to which the gradient is summed.
\<close>

datatype graph =
    Detached
  | Leaf
  | Through "tensor3 \<Rightarrow> tensor3" graph
  | Scale real graph
  | Sub "nat list list" graph "nat list list" graph

record tracked =
  data :: tensor3
  node :: graph

text \<open>\<^verbatim>\<open>x.requires_grad_(b)\<close>, on a leaf tensor.\<close>

definition set_requires_grad :: "tracked \<Rightarrow> bool \<Rightarrow> tracked" where
  "set_requires_grad x b = x\<lparr>node := (if b then Leaf else Detached)\<rparr>"

text \<open>
  The call \<open>v_t = f(x_t)\<close> yields a reference: to \<open>x_t\<close> itself, or to a new tensor, which
  is recorded in the graph only if \<open>x_t\<close> requires gradients at the time of the call.
  \<open>read\<close> follows a reference in the present state of \<open>x_t\<close>, so a velocity that is \<open>x_t\<close>
  itself requires gradients as soon as \<open>x_t\<close> does. A new tensor of two dimensions takes
  part in the operations that follow as a batch of one, and a velocity of any shape that
  broadcasts against \<open>x_t\<close> is accepted.
\<close>

datatype returned = TheInput | New tracked

definition call_denoiser :: "denoiser \<Rightarrow> tracked \<Rightarrow> returned" where
  "call_denoiser f x =
     (if output_is_input f (T3 (data x)) then TheInput
      else New \<lparr>data = unsqueeze_to_3d (forward f (T3 (data x))),
                node = (case node x of Detached \<Rightarrow> Detached
                                     | g \<Rightarrow> Through (backward f (data x)) g)\<rparr>)"

definition read :: "tracked \<Rightarrow> returned \<Rightarrow> tracked" where
  "read x_t r = (case r of TheInput \<Rightarrow> x_t | New t \<Rightarrow> t)"

definition tr_scale :: "real \<Rightarrow> tracked \<Rightarrow> tracked" where
  "tr_scale c v =
     \<lparr>data = t_scale c (data v),
      node = (case node v of Detached \<Rightarrow> Detached | g \<Rightarrow> Scale c g)\<rparr>"

definition tr_sub :: "tracked \<Rightarrow> tracked \<Rightarrow> error + tracked" where
  "tr_sub a b =
     (case b_sub (data a) (data b) of
        None \<Rightarrow> Inl RuntimeError
      | Some r \<Rightarrow>
          Inr \<lparr>data = r,
               node = (if node a = Detached \<and> node b = Detached then Detached
                       else Sub (dims (data a)) (node a) (dims (data b)) (node b))\<rparr>)"

text \<open>
  Reverse mode: the gradient that reaches the leaf from an upstream gradient \<open>u\<close> at a node,
  \<open>None\<close> when no path leads to the leaf.
\<close>

fun vjp :: "graph \<Rightarrow> tensor3 \<Rightarrow> tensor3 option" where
  "vjp Detached u = None"
| "vjp Leaf u = Some u"
| "vjp (Through J g) u = vjp g (J u)"
| "vjp (Scale c g) u = vjp g (t_scale c u)"
| "vjp (Sub da a db b) u =
     (case (vjp a (sum_to_dims da u), vjp b (sum_to_dims db u)) of
        (None, None) \<Rightarrow> None
      | (Some p, None) \<Rightarrow> Some p
      | (None, Some q) \<Rightarrow> Some (t_scale (- 1) q)
      | (Some p, Some q) \<Rightarrow> Some (t_sub p q))"

text \<open>
  \<^verbatim>\<open>torch.autograd.grad(outputs, inputs, grad_outputs)[0]\<close> raises when \<open>inputs\<close> does not
  require gradients, when \<open>grad_outputs\<close> has not the shape of \<open>outputs\<close>, and when
  \<open>outputs\<close> does not depend on \<open>inputs\<close>.
\<close>

definition autograd_grad :: "tracked \<Rightarrow> tracked \<Rightarrow> tensor3 \<Rightarrow> error + tensor3" where
  "autograd_grad outputs inputs grad_outputs =
     (if node inputs \<noteq> Leaf \<or> dims grad_outputs \<noteq> dims (data outputs) then Inl RuntimeError
      else case vjp (node outputs) grad_outputs of
             None \<Rightarrow> Inl RuntimeError
           | Some g \<Rightarrow> Inr g)"

text \<open>
  \<^verbatim>\<open>err = (prev_chunk_left_over - x1_t) * weights\<close>. A weight vector of length one is
  broadcast along the chunk. A vector of another length that differs from the length of
  the chunk makes the product raise, or gives an error of a shape that
  \<^verbatim>\<open>torch.autograd.grad\<close> refuses: an exception either way.
\<close>

definition weighted_error :: "tensor3 \<Rightarrow> tensor3 \<Rightarrow> real list \<Rightarrow> error + tensor3" where
  "weighted_error prev x1_t weights =
     (case b_sub prev x1_t of
        None \<Rightarrow> Inl RuntimeError
      | Some diff \<Rightarrow>
          if list_all (\<lambda>m. length m = length weights) diff
          then Inr (t_mul_weights diff weights)
          else if length weights = 1 then Inr (t_scale (hd weights) diff)
          else Inl RuntimeError)"

section \<open>Real-Time Chunking: the guided denoise step\<close>

text \<open>
  Steps 4 to 6 of \<^verbatim>\<open>denoise_step\<close>, on the input and the previous chunk with their batch
  dimensions: the execution horizon, the padding of the previous chunk, the assertion on
  its shape, and the prefix weights. The result is the padded chunk and the weights.
\<close>

definition prepare_prefix ::
  "RTCConfig \<Rightarrow> tensor3 \<Rightarrow> tensor3 \<Rightarrow> int \<Rightarrow> int option \<Rightarrow> error + (tensor3 \<times> real list)" where
  "prepare_prefix cfg x_t prev inference_delay execution_horizon' =
     (let execution_horizon' =
            (case execution_horizon' of
               None \<Rightarrow> execution_horizon cfg
             | Some h \<Rightarrow> h)
      in case shape3 prev of (prev_b, prev_t, prev_a) \<Rightarrow>
         case shape3 x_t of (batch_size, action_chunk_size, action_dim) \<Rightarrow>
           (let execution_horizon' =
                  (if execution_horizon' > int prev_t then int prev_t else execution_horizon')
            in case (if prev_t < action_chunk_size \<or> prev_a < action_dim
                     then pad_prev batch_size action_chunk_size action_dim prev
                     else Inr prev) of
                 Inl e \<Rightarrow> Inl e
               | Inr prev \<Rightarrow>
                   if shape3 prev \<noteq> shape3 x_t then Inl AssertionError
                   else
                     (case get_prefix_weights cfg inference_delay execution_horizon'
                             (int action_chunk_size) of
                        Inl e \<Rightarrow> Inl e
                      | Inr weights \<Rightarrow> Inr (prev, weights))))"

text \<open>
  Step 7 of \<^verbatim>\<open>denoise_step\<close>, the block under \<^verbatim>\<open>torch.enable_grad()\<close>: it yields the base
  velocity \<open>v_t\<close> and the correction. The denoiser is called before \<open>x_t\<close> is marked as
  requiring gradients.
\<close>

definition enable_grad_block ::
  "denoiser \<Rightarrow> real \<Rightarrow> tracked \<Rightarrow> tensor3 \<Rightarrow> real list \<Rightarrow> error + (tensor3 \<times> tensor3)" where
  "enable_grad_block original_denoise_step_partial time x_t prev_chunk_left_over weights =
     (let v_t = call_denoiser original_denoise_step_partial x_t;
          x_t = set_requires_grad x_t True;
          v_t = read x_t v_t
      in case tr_sub x_t (tr_scale time v_t) of
           Inl e \<Rightarrow> Inl e
         | Inr x1_t \<Rightarrow>
             (case weighted_error prev_chunk_left_over (data x1_t) weights of
                Inl e \<Rightarrow> Inl e
              | Inr err \<Rightarrow>
                  (let grad_outputs = err
                   in case autograd_grad x1_t x_t grad_outputs of
                        Inl e \<Rightarrow> Inl e
                      | Inr correction \<Rightarrow> Inr (data v_t, correction))))"

text \<open>
  \<^verbatim>\<open>RTCProcessor.denoise_step\<close>. The debug tracker, which records intermediate values and
  does not change the result, is left out.
\<close>

definition denoise_step ::
  "RTCConfig \<Rightarrow> tensor \<Rightarrow> tensor option \<Rightarrow> int \<Rightarrow> real \<Rightarrow> denoiser \<Rightarrow> int option
     \<Rightarrow> error + tensor" where
  "denoise_step cfg x_t prev_chunk_left_over inference_delay time
       original_denoise_step_partial execution_horizon' =
     (case prev_chunk_left_over of
        None \<Rightarrow> Inr (forward original_denoise_step_partial x_t)
      | Some prev \<Rightarrow>
          (let squeezed = (case x_t of T2 _ \<Rightarrow> True | T3 _ \<Rightarrow> False);
               x_t = \<lparr>data = unsqueeze_to_3d x_t, node = Detached\<rparr>;
               prev = unsqueeze_to_3d prev
           in case prepare_prefix cfg (data x_t) prev inference_delay execution_horizon' of
                Inl e \<Rightarrow> Inl e
              | Inr (prev, weights) \<Rightarrow>
                  (case enable_grad_block original_denoise_step_partial time x_t prev weights of
                     Inl e \<Rightarrow> Inl e
                   | Inr (v_t, correction) \<Rightarrow>
                       (let guidance_weight = guidance_weight cfg time
                        in case b_sub v_t (t_scale guidance_weight correction) of
                             None \<Rightarrow> Inl RuntimeError
                           | Some result \<Rightarrow>
                               Inr (if squeezed then squeeze0 result else T3 result)))))"



text \<open>
  The velocity that the denoiser gives at \<open>x\<close> is no larger than \<open>x\<close> along any dimension:
  where \<open>x - time * v\<close> is defined, it has the shape of \<open>x\<close>.
\<close>

definition velocity_fits :: "denoiser \<Rightarrow> real \<Rightarrow> tensor3 \<Rightarrow> bool" where
  "velocity_fits f time x =
     (case b_sub x (t_scale time (unsqueeze_to_3d (forward f (T3 x)))) of
        None \<Rightarrow> True
      | Some x1 \<Rightarrow> dims x1 = dims x)"

text \<open>
  Well-formed tensors, for the statements below: \<open>rect B T A x\<close> holds when \<open>x\<close> is a
  rectangular tensor of shape \<open>(B, T, A)\<close>.
\<close>

definition rect :: "nat \<Rightarrow> nat \<Rightarrow> nat \<Rightarrow> tensor3 \<Rightarrow> bool" where
  "rect B T A x =
     (length x = B \<and> list_all (\<lambda>m. length m = T \<and> list_all (\<lambda>r. length r = A) m) x)"

text \<open>
  A configuration to evaluate the processor at; the values are arbitrary.
\<close>

definition example_rtc_config :: RTCConfig where
  "example_rtc_config =
     \<lparr>execution_horizon = 10, max_guidance_weight = 10, prefix_attention_schedule = LINEAR\<rparr>"

text \<open>
  A denoiser to evaluate the step at: it doubles its input, so its Jacobian is twice the
  identity.
\<close>

definition example_denoiser :: denoiser where
  "example_denoiser =
     \<lparr>forward = (\<lambda>t. case t of T2 m \<Rightarrow> T2 (map (map (\<lambda>v. 2 * v)) m) | T3 x \<Rightarrow> T3 (t_scale 2 x)),
      backward = (\<lambda>x u. t_scale 2 u),
      output_is_input = (\<lambda>t. False)\<rparr>"



text \<open>
  The LINEAR schedule as the specification words it, to be compared with
  \<open>get_prefix_weights\<close>: after \<open>start = min(start, end)\<close>, a vector of length \<open>total\<close>
  that is 1 on \<open>[0, start)\<close>, the inner points of \<open>linspace(1, 0, end - start + 2)\<close> on
  \<open>[start, end)\<close> and 0 on \<open>[end, total)\<close>.
\<close>

definition linear_schedule_spec :: "int \<Rightarrow> int \<Rightarrow> int \<Rightarrow> real list" where
  "linear_schedule_spec start0 end total' =
     (let start = min start0 end
      in map (\<lambda>i. if int i < start then 1
                  else if int i < end
                    then slice_1_m1 (torch_linspace 1 0 (nat (end - start + 2))) ! nat (int i - start)
                  else 0)
           [0..<nat total'])"


section \<open>Networked variant: timed data\<close>

text \<open>
  \<^verbatim>\<open>TimedAction\<close> and \<^verbatim>\<open>TimedObservation\<close> are declared outside the files at hand; the
  records hold the fields that server and client read through \<^verbatim>\<open>get_timestamp\<close>,
  \<^verbatim>\<open>get_timestep\<close>, \<^verbatim>\<open>get_action\<close>, \<^verbatim>\<open>get_observation\<close> and \<^verbatim>\<open>must_go\<close>. Timestamps are
  modelled as exact reals, actions and observations are left abstract.
\<close>

record TimedData =
  timestamp :: real
  timestep :: int

record 'a TimedAction = TimedData +
  action :: 'a

record 'o TimedObservation = TimedData +
  observation :: 'o
  must_go :: bool

section \<open>Networked variant: the policy server\<close>

text \<open>
  \<^verbatim>\<open>policy_server.py\<close>, class \<^verbatim>\<open>PolicyServer\<close>. The configuration class is declared outside
  the files at hand; the record holds the fields the server reads.
\<close>

record PolicyServerConfig =
  fps :: int
  inference_latency :: real
  obs_queue_timeout :: real

text \<open>
  Modelled from the spec: \<^verbatim>\<open>PolicyServerConfig.environment_dt\<close>, a property of the absent
  configuration class. The specification stamps the actions with steps of \<open>1/fps\<close>.
\<close>

definition environment_dt :: "PolicyServerConfig \<Rightarrow> real" where
  "environment_dt cfg = 1 / real_of_int (fps cfg)"

text \<open>
  The state of the server that the RPC handlers read and write: the inbound queue,
  created with \<^verbatim>\<open>Queue(maxsize=1)\<close> and held oldest first, the set of predicted timesteps,
  the last observation that went through inference, and \<^verbatim>\<open>actions_per_chunk\<close>, which is
  \<^verbatim>\<open>None\<close> until the policy instructions arrive.
\<close>

record 'o PolicyServer =
  config :: PolicyServerConfig
  observation_queue :: "'o TimedObservation list"
  predicted_timesteps :: "int set"
  last_processed_obs :: "'o TimedObservation option"
  actions_per_chunk :: "int option"

text \<open>
  The policy and its processors are external callables. \<open>preprocess\<close> stands for
  \<^verbatim>\<open>raw_observation_to_observation\<close> followed by the preprocessor, \<open>predict_action_chunk\<close> for
  the policy, which returns the actions of one chunk; both may raise. The postprocessor
  is applied to each action.
\<close>

record ('o, 'p, 'a) pipeline =
  preprocess :: "'o \<Rightarrow> error + 'p"
  predict_action_chunk :: "'p \<Rightarrow> error + 'a list"
  postprocessor :: "'a \<Rightarrow> 'a"

text \<open>The capacity of the inbound queue.\<close>

definition queue_maxsize :: nat where
  "queue_maxsize = 1"

text \<open>\<^verbatim>\<open>_reset_server\<close> and the \<^verbatim>\<open>Ready\<close> handler: a new session starts.\<close>

definition reset_server :: "'o PolicyServer \<Rightarrow> 'o PolicyServer" where
  "reset_server s = s\<lparr>observation_queue := [], predicted_timesteps := {}\<rparr>"

definition Ready :: "'o PolicyServer \<Rightarrow> 'o PolicyServer" where
  "Ready s = reset_server s"

text \<open>
  \<^verbatim>\<open>_obs_sanity_checks\<close>. The similarity test \<^verbatim>\<open>observations_similar\<close> is a helper declared
  outside the files at hand and is a parameter here.
\<close>

definition obs_sanity_checks ::
  "('o TimedObservation \<Rightarrow> 'o TimedObservation \<Rightarrow> bool) \<Rightarrow> 'o PolicyServer
     \<Rightarrow> 'o TimedObservation \<Rightarrow> 'o TimedObservation \<Rightarrow> bool" where
  "obs_sanity_checks observations_similar s obs previous_obs =
     (let predicted_timesteps = predicted_timesteps s
      in if timestep obs \<in> predicted_timesteps then False
         else if observations_similar obs previous_obs then False
         else True)"

text \<open>
  \<^verbatim>\<open>_enqueue_observation\<close>: the result and the new state. A full queue gives up its oldest
  observation first.
\<close>

definition enqueue_observation ::
  "('o TimedObservation \<Rightarrow> 'o TimedObservation \<Rightarrow> bool) \<Rightarrow> 'o PolicyServer
     \<Rightarrow> 'o TimedObservation \<Rightarrow> bool \<times> 'o PolicyServer" where
  "enqueue_observation observations_similar s obs =
     (if must_go obs
         \<or> (case last_processed_obs s of
               None \<Rightarrow> True
             | Some previous_obs \<Rightarrow> obs_sanity_checks observations_similar s obs previous_obs)
      then (let q = observation_queue s;
                q = (if length q \<ge> queue_maxsize then tl q else q)
            in (True, s\<lparr>observation_queue := q @ [obs]\<rparr>))
      else (False, s))"

text \<open>\<^verbatim>\<open>_time_action_chunk\<close>.\<close>

definition time_action_chunk ::
  "PolicyServerConfig \<Rightarrow> real \<Rightarrow> 'a list \<Rightarrow> int \<Rightarrow> 'a TimedAction list" where
  "time_action_chunk cfg t_0 action_chunk i_0 =
     map (\<lambda>(i, action).
            \<lparr>timestamp = t_0 + real i * environment_dt cfg, timestep = i_0 + int i,
             action = action\<rparr>)
       (enumerate 0 action_chunk)"

text \<open>
  \<^verbatim>\<open>_get_action_chunk\<close>, for a batch of one chunk: the slice \<^verbatim>\<open>[:actions_per_chunk]\<close> along
  the chunk.
\<close>

definition get_action_chunk ::
  "('o, 'p, 'a) pipeline \<Rightarrow> 'o PolicyServer \<Rightarrow> 'p \<Rightarrow> error + 'a list" where
  "get_action_chunk pl s observation' =
     (case predict_action_chunk pl observation' of
        Inl e \<Rightarrow> Inl e
      | Inr chunk \<Rightarrow>
          Inr (case actions_per_chunk s of
                 None \<Rightarrow> chunk
               | Some n \<Rightarrow> take (slice_bound (length chunk) n) chunk))"

text \<open>
  \<^verbatim>\<open>_predict_action_chunk\<close>: the result, an exception or the timed chunk, and the new state.
  \<^verbatim>\<open>last_processed_obs\<close> is set once the observation has been pre-processed. On a chunk
  without actions \<^verbatim>\<open>torch.stack\<close> is given the empty list and raises.
\<close>

definition predict_action_chunk_timed ::
  "('o, 'p, 'a) pipeline \<Rightarrow> 'o PolicyServer \<Rightarrow> 'o TimedObservation
     \<Rightarrow> (error + 'a TimedAction list) \<times> 'o PolicyServer" where
  "predict_action_chunk_timed pl s observation_t =
     (case preprocess pl (observation observation_t) of
        Inl e \<Rightarrow> (Inl e, s)
      | Inr observation' \<Rightarrow>
          (let s = s\<lparr>last_processed_obs := Some observation_t\<rparr>
           in case get_action_chunk pl s observation' of
                Inl e \<Rightarrow> (Inl e, s)
              | Inr action_tensor \<Rightarrow>
                  (let processed_actions = map (postprocessor pl) action_tensor
                   in if processed_actions = [] then (Inl RuntimeError, s)
                      else (Inr (time_action_chunk (config s) (timestamp observation_t)
                                   processed_actions (timestep observation_t)),
                            s))))"

text \<open>
  The \<^verbatim>\<open>GetActions\<close> handler: the reply, the new state, and the observations that were
  passed to \<^verbatim>\<open>_predict_action_chunk\<close> during the call. An empty queue makes \<^verbatim>\<open>get\<close>
  time out, and every exception of the inference ends in the empty reply.
\<close>

datatype 'a reply = Empty | Actions "'a TimedAction list"

definition GetActions ::
  "('o, 'p, 'a) pipeline \<Rightarrow> 'o PolicyServer
     \<Rightarrow> 'a reply \<times> 'o PolicyServer \<times> 'o TimedObservation list" where
  "GetActions pl s =
     (case observation_queue s of
        [] \<Rightarrow> (Empty, s, [])
      | obs # rest \<Rightarrow>
          (let s = s\<lparr>observation_queue := rest\<rparr>;
               s = s\<lparr>predicted_timesteps := insert (timestep obs) (predicted_timesteps s)\<rparr>
           in case predict_action_chunk_timed pl s obs of
                (Inl e, s) \<Rightarrow> (Empty, s, [obs])
              | (Inr action_chunk, s) \<Rightarrow> (Actions action_chunk, s, [obs])))"

text \<open>The \<^verbatim>\<open>SendObservations\<close> handler, once the observation has been received.\<close>

definition SendObservations ::
  "('o TimedObservation \<Rightarrow> 'o TimedObservation \<Rightarrow> bool) \<Rightarrow> 'o PolicyServer
     \<Rightarrow> 'o TimedObservation \<Rightarrow> 'o PolicyServer" where
  "SendObservations observations_similar s timed_observation =
     snd (enqueue_observation observations_similar s timed_observation)"

text \<open>
  A session after \<^verbatim>\<open>Ready\<close>: a sequence of \<^verbatim>\<open>SendObservations\<close> and \<^verbatim>\<open>GetActions\<close> calls,
  handled one at a time. \<open>serve\<close> returns the final state and every observation passed to
  \<^verbatim>\<open>_predict_action_chunk\<close>, in order.
\<close>

datatype 'o rpc = CallSendObservations "'o TimedObservation" | CallGetActions

fun serve ::
  "('o TimedObservation \<Rightarrow> 'o TimedObservation \<Rightarrow> bool) \<Rightarrow> ('o, 'p, 'a) pipeline
     \<Rightarrow> 'o PolicyServer \<Rightarrow> 'o rpc list \<Rightarrow> 'o PolicyServer \<times> 'o TimedObservation list" where
  "serve sim pl s [] = (s, [])"
| "serve sim pl s (CallSendObservations obs # calls) =
     serve sim pl (SendObservations sim s obs) calls"
| "serve sim pl s (CallGetActions # calls) =
     (case GetActions pl s of
        (_, s', inferred) \<Rightarrow>
          (case serve sim pl s' calls of (s'', later) \<Rightarrow> (s'', inferred @ later)))"

text \<open>
  A sequence of inferred observations repeats a timestep only by force: every observation
  in it is forced or has a timestep that none of the earlier ones has.
\<close>

definition only_forced_repeats :: "'o TimedObservation list \<Rightarrow> bool" where
  "only_forced_repeats inferred =
     (\<forall>i < length inferred.
        must_go (inferred ! i) \<or> timestep (inferred ! i) \<notin> timestep ` set (take i inferred))"

text \<open>
  The invariant of a session: the timesteps of the observations inferred so far are the
  predicted set, a timestep is repeated only by force, an observation has been processed
  once a timestep is predicted, and the queue holds at most one observation, which is
  forced or of a timestep not yet predicted.
\<close>

definition dedup_inv :: "'o PolicyServer \<Rightarrow> 'o TimedObservation list \<Rightarrow> bool" where
  "dedup_inv s inferred =
     (timestep ` set inferred = predicted_timesteps s \<and> only_forced_repeats inferred
      \<and> (last_processed_obs s = None \<longrightarrow> predicted_timesteps s = {})
      \<and> (\<forall>obs \<in> set (observation_queue s).
            must_go obs \<or> timestep obs \<notin> predicted_timesteps s)
      \<and> length (observation_queue s) \<le> 1)"

text \<open>
  The acceptance condition as the specification words it, over the observations accepted
  so far, oldest first.
\<close>

definition accepted_spec ::
  "('o TimedObservation \<Rightarrow> 'o TimedObservation \<Rightarrow> bool) \<Rightarrow> int set \<Rightarrow> 'o TimedObservation list
     \<Rightarrow> 'o TimedObservation \<Rightarrow> bool" where
  "accepted_spec sim predicted accepted obs =
     (must_go obs \<or> accepted = []
      \<or> (timestep obs \<notin> predicted \<and> \<not> sim obs (last accepted)))"

text \<open>A server, a pipeline and observations to evaluate the handlers at.\<close>

definition example_server :: "nat PolicyServer" where
  "example_server =
     \<lparr>config = \<lparr>fps = 50, inference_latency = 0, obs_queue_timeout = 1\<rparr>,
      observation_queue = [], predicted_timesteps = {}, last_processed_obs = None,
      actions_per_chunk = None\<rparr>"

definition example_pipeline :: "(nat, nat, nat) pipeline" where
  "example_pipeline =
     \<lparr>preprocess = (\<lambda>obs. Inr obs), predict_action_chunk = (\<lambda>p. Inr [p, p + 1]),
      postprocessor = (\<lambda>a. a)\<rparr>"

definition example_obs :: "int \<Rightarrow> bool \<Rightarrow> nat TimedObservation" where
  "example_obs i forced = \<lparr>timestamp = 0, timestep = i, observation = 0, must_go = forced\<rparr>"

text \<open>A pipeline whose pre-processing raises on every observation.\<close>

definition failing_pipeline :: "(nat, nat, nat) pipeline" where
  "failing_pipeline = example_pipeline\<lparr>preprocess := (\<lambda>obs. Inl RuntimeError)\<rparr>"

text \<open>
  Unforced observations with a content, a similarity test that compares the contents, and
  the server after the observation of timestep 5 and content 0 has gone through inference.
\<close>

definition example_view :: "int \<Rightarrow> nat \<Rightarrow> nat TimedObservation" where
  "example_view i v = \<lparr>timestamp = 0, timestep = i, observation = v, must_go = False\<rparr>"

definition example_similar :: "nat TimedObservation \<Rightarrow> nat TimedObservation \<Rightarrow> bool" where
  "example_similar a b = (observation a = observation b)"

definition example_processed :: "nat PolicyServer" where
  "example_processed =
     example_server\<lparr>predicted_timesteps := {5}, last_processed_obs := Some (example_view 5 0)\<rparr>"

text \<open>
  \<^verbatim>\<open>test.py\<close>: the timesteps and timestamps of one chunk, computed with \<^verbatim>\<open>np.arange\<close>.
\<close>

definition np_arange :: "nat \<Rightarrow> nat list" where
  "np_arange n = [0..<n]"

definition test_i_0 :: int where "test_i_0 = 10"
definition test_chunk_size :: nat where "test_chunk_size = 10"
definition test_timestep_arange :: "int list" where
  "test_timestep_arange = map (\<lambda>k. test_i_0 + int k) (np_arange test_chunk_size)"
definition test_t_0 :: real where "test_t_0 = 1 / 10"
definition test_environment_dt :: real where "test_environment_dt = 2 / 100"
definition test_time_delta :: "real list" where
  "test_time_delta = map (\<lambda>k. real k * test_environment_dt) (np_arange test_chunk_size)"
definition test_timestamp :: "real list" where
  "test_timestamp = map (\<lambda>d. test_t_0 + d) test_time_delta"

section \<open>Networked variant: the chunk merge of the robot client\<close>

text \<open>
  \<^verbatim>\<open>robot_client.py\<close>, class \<^verbatim>\<open>RobotClient\<close>: the fields that the merge reads and writes.
\<close>

record 'a RobotClient =
  latest_action :: int
  action_chunk_size :: int
  action_queue :: "'a TimedAction list"

text \<open>
  The dictionary \<^verbatim>\<open>{action.get_timestep(): action.get_action() for action in
  internal_queue}\<close>: a later entry of the queue overrides an earlier one.
\<close>

definition current_action_queue_of :: "'a TimedAction list \<Rightarrow> (int \<rightharpoonup> 'a)" where
  "current_action_queue_of internal_queue =
     foldl (\<lambda>d a. d(timestep a \<mapsto> action a)) Map.empty internal_queue"

text \<open>
  The loop of \<^verbatim>\<open>_aggregate_action_queues\<close> over the incoming actions, with the new queue
  \<^verbatim>\<open>future_action_queue\<close> as accumulator. The latest executed timestep is read once: the
  merge is modelled without a control-loop step in between.
\<close>

fun aggregate_loop ::
  "int \<Rightarrow> (int \<rightharpoonup> 'a) \<Rightarrow> ('a \<Rightarrow> 'a \<Rightarrow> 'a) \<Rightarrow> 'a TimedAction list \<Rightarrow> 'a TimedAction list
     \<Rightarrow> 'a TimedAction list" where
  "aggregate_loop latest current_action_queue aggregate_fn future_action_queue [] =
     future_action_queue"
| "aggregate_loop latest current_action_queue aggregate_fn future_action_queue
       (new_action # incoming_actions) =
     (if timestep new_action \<le> latest
      then aggregate_loop latest current_action_queue aggregate_fn future_action_queue
             incoming_actions
      else case current_action_queue (timestep new_action) of
             None \<Rightarrow>
               aggregate_loop latest current_action_queue aggregate_fn
                 (future_action_queue @ [new_action]) incoming_actions
           | Some old \<Rightarrow>
               aggregate_loop latest current_action_queue aggregate_fn
                 (future_action_queue
                    @ [\<lparr>timestamp = timestamp new_action, timestep = timestep new_action,
                         action = aggregate_fn old (action new_action)\<rparr>])
                 incoming_actions)"

text \<open>\<^verbatim>\<open>_aggregate_action_queues\<close>: the new queue replaces \<^verbatim>\<open>action_queue\<close>.\<close>

definition aggregate_action_queues ::
  "'a RobotClient \<Rightarrow> 'a TimedAction list \<Rightarrow> ('a \<Rightarrow> 'a \<Rightarrow> 'a) option \<Rightarrow> 'a RobotClient" where
  "aggregate_action_queues s incoming_actions aggregate_fn =
     (let aggregate_fn = (case aggregate_fn of None \<Rightarrow> (\<lambda>x1 x2. x2) | Some f \<Rightarrow> f);
          internal_queue = action_queue s;
          current_action_queue = current_action_queue_of internal_queue
      in s\<lparr>action_queue :=
             aggregate_loop (latest_action s) current_action_queue aggregate_fn []
               incoming_actions\<rparr>)"

text \<open>
  What the loop puts into the new queue for an incoming action that is not dropped.
\<close>

definition merged_item ::
  "(int \<rightharpoonup> 'a) \<Rightarrow> ('a \<Rightarrow> 'a \<Rightarrow> 'a) \<Rightarrow> 'a TimedAction \<Rightarrow> 'a TimedAction" where
  "merged_item current_action_queue aggregate_fn new_action =
     (case current_action_queue (timestep new_action) of
        None \<Rightarrow> new_action
      | Some old \<Rightarrow>
          \<lparr>timestamp = timestamp new_action, timestep = timestep new_action,
           action = aggregate_fn old (action new_action)\<rparr>)"

text \<open>A client to evaluate the merge at.\<close>

definition example_action :: "int \<Rightarrow> nat \<Rightarrow> nat TimedAction" where
  "example_action i a = \<lparr>timestamp = 0, timestep = i, action = a\<rparr>"

definition example_client :: "nat RobotClient" where
  "example_client =
     \<lparr>latest_action = 3, action_chunk_size = 2,
      action_queue = [example_action 4 40, example_action 5 50]\<rparr>"

section \<open>Properties of the prefix weight builder\<close>

lemma ramp_values:
  "slice_1_m1 (torch_linspace 1 0 (Suc (Suc n))) = map (\<lambda>i. 1 - real (Suc i) / real (Suc n)) [0..<n]"
proof (rule nth_equalityI)
  show "length (slice_1_m1 (torch_linspace 1 0 (Suc (Suc n))))
      = length (map (\<lambda>i. 1 - real (Suc i) / real (Suc n)) [0..<n])"
    by (simp add: slice_1_m1_def torch_linspace_def)
next
  fix i
  assume "i < length (slice_1_m1 (torch_linspace 1 0 (Suc (Suc n))))"
  then have i: "i < n"
    by (simp add: slice_1_m1_def torch_linspace_def)
  then show "slice_1_m1 (torch_linspace 1 0 (Suc (Suc n))) ! i
      = map (\<lambda>i. 1 - real (Suc i) / real (Suc n)) [0..<n] ! i"
    by (simp add: slice_1_m1_def torch_linspace_def nth_butlast nth_tl del: upt_Suc)
qed

lemma ramp_decreasing:
  "sorted_wrt (\<lambda>a b. b < a) (slice_1_m1 (torch_linspace 1 0 (Suc (Suc n))))"
  unfolding ramp_values
  by (simp add: sorted_wrt_map sorted_wrt_iff_nth_less divide_strict_right_mono del: upt_Suc)

lemma ramp_between:
  "\<forall>r \<in> set (slice_1_m1 (torch_linspace 1 0 (Suc (Suc n)))). 0 < r \<and> r < 1"
  unfolding ramp_values by (auto simp del: upt_Suc)


lemma zeros_vec:
  assumes "prefix_attention_schedule cfg = ZEROS" and "0 \<le> min start end" and "0 \<le> total'"
  shows "get_prefix_weights cfg start end total'
     = Inr (replicate (nat (min (min start end) total')) 1
            @ replicate (nat (total' - min (min start end) total')) 0)"
  using assms
  by (auto simp add: get_prefix_weights_def torch_zeros_def assign_upto_def slice_bound_def
        Let_def min_def nat_diff_distrib)

lemma ones_vec:
  assumes "prefix_attention_schedule cfg = ONES" and "0 \<le> end" and "0 \<le> total'"
  shows "get_prefix_weights cfg start end total'
     = Inr (replicate (nat (min end total')) 1
            @ replicate (nat (total' - min end total')) 0)"
  using assms
  by (auto simp add: get_prefix_weights_def torch_ones_def assign_from_def slice_bound_def
        Let_def min_def nat_diff_distrib)

lemma empty_ramp: "slice_1_m1 (torch_linspace 1 0 (Suc (Suc 0))) = []"
  by (simp add: slice_1_m1_def torch_linspace_def)

lemma linweights_ramp:
  "linweights s e t = slice_1_m1 (torch_linspace 1 0 (nat (min e t - s) + 2))"
proof (cases "e \<le> s \<or> min e t - s \<le> 0")
  case True
  then have "nat (min e t - s) = 0" by auto
  moreover from True have "linweights s e t = []"
    by (auto simp: linweights_def Let_def)
  ultimately show ?thesis by (simp add: empty_ramp)
next
  case False
  then have "t - max (t - e) 0 - s = min e t - s" and "0 < min e t - s" and "\<not> e \<le> s"
    by auto
  then show ?thesis
    by (simp add: linweights_def Let_def nat_add_distrib empty_ramp)
qed

lemma linear_vec:
  assumes "prefix_attention_schedule cfg = LINEAR" and "0 \<le> min start end" and "0 \<le> total'"
  shows "get_prefix_weights cfg start end total'
     = Inr (replicate (nat (min (min start end) total')) 1
            @ slice_1_m1 (torch_linspace 1 0 (nat (min end total' - min start end) + 2))
            @ replicate (nat (total' - end)) 0)"
  using assms
  by (simp add: get_prefix_weights_def linweights_ramp add_trailing_zeros_def
        add_leading_ones_def Let_def)


lemma length_ramp: "length (slice_1_m1 (torch_linspace 1 0 (Suc (Suc n)))) = n"
  by (simp add: ramp_values)

lemma spec_eq_aux:
  assumes "0 \<le> s" "s \<le> e" "e \<le> t"
  shows "replicate (nat s) 1 @ slice_1_m1 (torch_linspace 1 0 (nat (e - s) + 2))
           @ replicate (nat (t - e)) 0
       = map (\<lambda>i. if int i < s then 1
                   else if int i < e
                     then slice_1_m1 (torch_linspace 1 0 (nat (e - s + 2))) ! nat (int i - s)
                   else 0)
           [0..<nat t]"
proof (rule nth_equalityI)
  show "length (replicate (nat s) 1 @ slice_1_m1 (torch_linspace 1 0 (nat (e - s) + 2))
           @ replicate (nat (t - e)) (0::real))
       = length (map (\<lambda>i. if int i < s then 1
                   else if int i < e
                     then slice_1_m1 (torch_linspace 1 0 (nat (e - s + 2))) ! nat (int i - s)
                   else (0::real))
           [0..<nat t])"
    using assms by (simp add: length_ramp)
next
  fix i
  assume "i < length (replicate (nat s) 1 @ slice_1_m1 (torch_linspace 1 0 (nat (e - s) + 2))
           @ replicate (nat (t - e)) (0::real))"
  with assms have i: "i < nat t"
    by (simp add: length_ramp)
  have n: "nat (e - s + 2) = nat (e - s) + 2"
    using assms by simp
  consider "int i < s" | "s \<le> int i" "int i < e" | "e \<le> int i"
    by linarith
  then show "(replicate (nat s) 1 @ slice_1_m1 (torch_linspace 1 0 (nat (e - s) + 2))
           @ replicate (nat (t - e)) 0) ! i
       = map (\<lambda>i. if int i < s then 1
                   else if int i < e
                     then slice_1_m1 (torch_linspace 1 0 (nat (e - s + 2))) ! nat (int i - s)
                   else 0)
           [0..<nat t] ! i"
  proof cases
    case 1
    then have "i < nat s" by linarith
    with 1 i show ?thesis by (simp add: nth_append del: upt_Suc)
  next
    case 2
    then have a: "\<not> i < nat s" and b: "i - nat s < nat (e - s)" and c: "nat (int i - s) = i - nat s"
      using assms by linarith+
    with 2 i show ?thesis
      by (simp add: nth_append length_ramp n del: upt_Suc)
  next
    case 3
    then have a: "\<not> i < nat s" and b: "\<not> i - nat s < nat (e - s)"
         and c: "i - nat s - nat (e - s) < nat (t - e)"
      using assms i by linarith+
    with 3 i assms show ?thesis
      by (simp add: nth_append length_ramp del: upt_Suc)
  qed
qed

lemma ramp_fits:
  assumes "0 \<le> min s e" and "0 \<le> t"
  shows "nat (min (min s e) t) + (nat (min e t - min s e) + nat (t - e)) = nat t"
  using assms by (auto simp: min_def split: if_splits)


section \<open>Properties of the guidance weight\<close>

lemma guidance_weight_time_zero: "guidance_weight cfg 0 = min 0 (max_guidance_weight cfg)"
  by (simp add: guidance_weight_def tdiv_def nan_to_num_def Let_def)

lemma guidance_weight_time_one: "guidance_weight cfg 1 = max_guidance_weight cfg"
  by (simp add: guidance_weight_def tdiv_def nan_to_num_def Let_def)

lemma guidance_weight_interior:
  assumes "time \<noteq> 0" and "time \<noteq> 1"
  shows "guidance_weight cfg time
    = min (time / (1 - time) * ((time\<^sup>2 + (1 - time)\<^sup>2) / time\<^sup>2)) (max_guidance_weight cfg)"
  using assms by (simp add: guidance_weight_def tdiv_def nan_to_num_def Let_def)

section \<open>Properties of tensors and of the autograd block\<close>

lemma dims_t_scale: "dims (t_scale c a) = dims a"
  by (simp add: dims_def t_scale_def comp_def)

lemma map2_length_rows:
  "map length xs = map length ys \<Longrightarrow> map length (map2 (map2 f) xs ys) = map length xs"
proof (induction xs arbitrary: ys)
  case Nil
  then show ?case by simp
next
  case (Cons x xs)
  then obtain y ys' where "ys = y # ys'" by (cases ys) auto
  with Cons show ?case by simp
qed

lemma dims_t_sub: "dims a = dims b \<Longrightarrow> dims (t_sub a b) = dims a"
proof (induction a arbitrary: b)
  case Nil
  then show ?case by (simp add: dims_def t_sub_def)
next
  case (Cons m a)
  then obtain n b' where b: "b = n # b'" by (cases b) (auto simp: dims_def)
  from Cons.prems b have mn: "map length m = map length n" and r: "dims a = dims b'"
    by (simp_all add: dims_def)
  have "map length (map2 (map2 (\<lambda>u v. u - v)) m n) = map length m"
    using mn by (rule map2_length_rows)
  moreover from Cons.IH [OF r] have "dims (t_sub a b') = dims a" .
  ultimately show ?case
    unfolding b by (simp add: dims_def t_sub_def)
qed




lemma those_map2_Some:
  assumes "length xs = length ys"
      and "\<And>x y. (x, y) \<in> set (zip xs ys) \<Longrightarrow> f x y = Some (g x y)"
  shows "those (map2 f xs ys) = Some (map2 g xs ys)"
  using assms by (induction xs ys rule: list_induct2) simp_all

lemma bzip_same:
  assumes "length xs = length ys"
      and "\<And>x y. (x, y) \<in> set (zip xs ys) \<Longrightarrow> f x y = Some (g x y)"
  shows "bzip f xs ys = Some (map2 g xs ys)"
  using assms by (simp add: bzip_def those_map2_Some)

lemma zip_map_eq: "map h xs = map h ys \<Longrightarrow> (x, y) \<in> set (zip xs ys) \<Longrightarrow> h x = h y"
proof (induction xs arbitrary: ys)
  case Nil
  then show ?case by simp
next
  case (Cons a xs)
  then obtain b ys' where "ys = b # ys'" by (cases ys) auto
  with Cons show ?case by auto
qed

lemma b_sub_same: "dims a = dims b \<Longrightarrow> b_sub a b = Some (t_sub a b)"
proof -
  assume d: "dims a = dims b"
  then have m: "map (map length) a = map (map length) b" by (simp add: dims_def)
  then have l: "length a = length b" by (metis length_map)
  have r: "bzip (bzip (\<lambda>u v. Some (u - v))) m n = Some (map2 (map2 (\<lambda>u v. u - v)) m n)"
    if mn: "(m, n) \<in> set (zip a b)" for m n
  proof -
    from m mn have mm: "map length m = map length n" by (rule zip_map_eq)
    then have lm: "length m = length n" by (metis length_map)
    have "bzip (\<lambda>u v. Some (u - v)) r s = Some (map2 (\<lambda>u v. u - v) r s)"
      if rs: "(r, s) \<in> set (zip m n)" for r s
    proof -
      from mm rs have "length r = length s" by (rule zip_map_eq)
      then show ?thesis by (rule bzip_same) simp
    qed
    with lm show ?thesis by (rule bzip_same)
  qed
  from l r show ?thesis unfolding b_sub_def t_sub_def by (rule bzip_same)
qed







lemma rect_dims: "rect B T A x \<Longrightarrow> dims x = replicate B (replicate T A)"
proof -
  assume r: "rect B T A x"
  have a: "map length m = replicate T A" if "m \<in> set x" for m
  proof -
    from that r have l: "length m = T" and e: "\<forall>r \<in> set m. length r = A"
      by (auto simp: rect_def list_all_iff)
    from e have "map length m = map (\<lambda>_. A) m"
      by (intro map_cong) auto
    with l show ?thesis by (simp add: map_replicate_const)
  qed
  then have "map (map length) x = map (\<lambda>_. replicate T A) x"
    by (intro map_cong) auto
  with r show ?thesis by (simp add: dims_def rect_def map_replicate_const)
qed






lemma rect_velocity_fits:
  assumes "rect B T A x" and "rect B T A (unsqueeze_to_3d (forward f (T3 x)))"
  shows "velocity_fits f time x"
proof -
  let ?v = "unsqueeze_to_3d (forward f (T3 x))"
  have d: "dims x = dims (t_scale time ?v)"
    using assms by (simp add: rect_dims dims_t_scale)
  then have "b_sub x (t_scale time ?v) = Some (t_sub x (t_scale time ?v))"
    by (rule b_sub_same)
  moreover have "dims (t_sub x (t_scale time ?v)) = dims x"
    using d by (rule dims_t_sub)
  ultimately show ?thesis by (simp add: velocity_fits_def)
qed


section \<open>Properties of the policy server\<close>

lemma enqueue_cases:
  "enqueue_observation sim s obs = (False, s)
   \<or> (enqueue_observation sim s obs
        = (True, s\<lparr>observation_queue :=
                    (if length (observation_queue s) \<ge> queue_maxsize then tl (observation_queue s)
                     else observation_queue s) @ [obs]\<rparr>)
      \<and> (must_go obs
          \<or> (case last_processed_obs s of
                None \<Rightarrow> True
              | Some previous_obs \<Rightarrow>
                  timestep obs \<notin> predicted_timesteps s \<and> \<not> sim obs previous_obs)))"
  by (auto simp: enqueue_observation_def obs_sanity_checks_def Let_def split: option.splits)

lemma SendObservations_inv:
  assumes "dedup_inv s inferred"
  shows "dedup_inv (SendObservations sim s obs) inferred"
proof -
  from enqueue_cases [of sim s obs] show ?thesis
  proof
    assume "enqueue_observation sim s obs = (False, s)"
    with assms show ?thesis by (simp add: SendObservations_def)
  next
    assume a: "enqueue_observation sim s obs
        = (True, s\<lparr>observation_queue :=
                    (if length (observation_queue s) \<ge> queue_maxsize then tl (observation_queue s)
                     else observation_queue s) @ [obs]\<rparr>)
      \<and> (must_go obs
          \<or> (case last_processed_obs s of
                None \<Rightarrow> True
              | Some previous_obs \<Rightarrow>
                  timestep obs \<notin> predicted_timesteps s \<and> \<not> sim obs previous_obs))"
    with assms have fresh: "must_go obs \<or> timestep obs \<notin> predicted_timesteps s"
      by (auto simp: dedup_inv_def split: option.splits)
    from assms have q: "(if length (observation_queue s) \<ge> queue_maxsize
          then tl (observation_queue s) else observation_queue s) = []"
      by (cases "observation_queue s") (auto simp: dedup_inv_def queue_maxsize_def)
    from a q fresh assms show ?thesis
      by (simp add: SendObservations_def dedup_inv_def)
  qed
qed

lemma GetActions_empty:
  "observation_queue s = [] \<Longrightarrow> GetActions pl s = (Empty, s, [])"
  by (simp add: GetActions_def)

lemma GetActions_obs:
  assumes "observation_queue s = obs # rest" and "preprocess pl (observation obs) = Inr p"
  shows "\<exists>r s'. GetActions pl s = (r, s', [obs])
            \<and> observation_queue s' = rest
            \<and> predicted_timesteps s' = insert (timestep obs) (predicted_timesteps s)
            \<and> last_processed_obs s' = Some obs"
  using assms
  by (auto simp: GetActions_def predict_action_chunk_timed_def Let_def split: sum.splits)

lemma only_forced_repeats_snoc:
  assumes "only_forced_repeats inferred"
      and "must_go obs \<or> timestep obs \<notin> timestep ` set inferred"
  shows "only_forced_repeats (inferred @ [obs])"
  unfolding only_forced_repeats_def
proof (intro allI impI)
  fix i
  assume "i < length (inferred @ [obs])"
  then consider "i < length inferred" | "i = length inferred" by fastforce
  then show "must_go ((inferred @ [obs]) ! i)
      \<or> timestep ((inferred @ [obs]) ! i) \<notin> timestep ` set (take i (inferred @ [obs]))"
  proof cases
    case 1
    with assms(1) show ?thesis
      by (simp add: only_forced_repeats_def nth_append)
  next
    case 2
    with assms(2) show ?thesis by simp
  qed
qed

lemma GetActions_inv:
  assumes "dedup_inv s inferred" and "\<forall>obs. \<exists>p. preprocess pl obs = Inr p"
  shows "\<exists>r s' new. GetActions pl s = (r, s', new) \<and> dedup_inv s' (inferred @ new)"
proof (cases "observation_queue s")
  case Nil
  with assms(1) show ?thesis by (simp add: GetActions_empty)
next
  case (Cons obs rest)
  from assms(2) obtain p where "preprocess pl (observation obs) = Inr p" by blast
  from GetActions_obs [OF Cons this] obtain r s' where
    g: "GetActions pl s = (r, s', [obs])" and q: "observation_queue s' = rest"
    and p: "predicted_timesteps s' = insert (timestep obs) (predicted_timesteps s)"
    and l: "last_processed_obs s' = Some obs" by blast
  from assms(1) Cons have e: "rest = []"
    and f: "must_go obs \<or> timestep obs \<notin> timestep ` set inferred"
    by (auto simp: dedup_inv_def)
  from assms(1) have "only_forced_repeats inferred" by (simp add: dedup_inv_def)
  then have "only_forced_repeats (inferred @ [obs])"
    using f by (rule only_forced_repeats_snoc)
  with assms(1) q p l e have "dedup_inv s' (inferred @ [obs])"
    by (auto simp: dedup_inv_def)
  with g show ?thesis by blast
qed

lemma serve_inv:
  assumes "dedup_inv s inferred" and "\<forall>obs. \<exists>p. preprocess pl obs = Inr p"
  shows "only_forced_repeats (inferred @ snd (serve sim pl s calls))"
  using assms(1)
proof (induction calls arbitrary: s inferred)
  case Nil
  then show ?case by (simp add: dedup_inv_def)
next
  case (Cons c calls)
  show ?case
  proof (cases c)
    case (CallSendObservations obs)
    from Cons.prems have "dedup_inv (SendObservations sim s obs) inferred"
      by (rule SendObservations_inv)
    then have "only_forced_repeats (inferred @ snd (serve sim pl (SendObservations sim s obs) calls))"
      by (rule Cons.IH)
    with CallSendObservations show ?thesis by simp
  next
    case CallGetActions
    from GetActions_inv [OF Cons.prems assms(2)] obtain r s' new where
      g: "GetActions pl s = (r, s', new)" and i: "dedup_inv s' (inferred @ new)" by blast
    from i have "only_forced_repeats ((inferred @ new) @ snd (serve sim pl s' calls))"
      by (rule Cons.IH)
    with CallGetActions g show ?thesis
      by (simp add: split_beta)
  qed
qed

lemma Ready_inv: "dedup_inv (Ready s) []"
  by (simp add: dedup_inv_def only_forced_repeats_def Ready_def reset_server_def)

lemma only_forced_repeats_split:
  assumes "only_forced_repeats inferred" and "inferred = pre @ obs # post"
  shows "must_go obs \<or> timestep obs \<notin> timestep ` set pre"
proof -
  have "length pre < length inferred" using assms(2) by simp
  with assms(1) have "must_go (inferred ! length pre)
      \<or> timestep (inferred ! length pre) \<notin> timestep ` set (take (length pre) inferred)"
    by (simp add: only_forced_repeats_def)
  with assms(2) show ?thesis by simp
qed

lemma only_forced_repeats_distinct:
  assumes "only_forced_repeats inferred" and "list_all (\<lambda>obs. \<not> must_go obs) inferred"
  shows "distinct (map timestep inferred)"
proof -
  have "timestep (inferred ! i) \<noteq> timestep (inferred ! j)"
    if "i < j" "j < length inferred" for i j
  proof -
    from that assms(2) have "\<not> must_go (inferred ! j)"
      by (simp add: list_all_length)
    with assms(1) that have "timestep (inferred ! j) \<notin> timestep ` set (take j inferred)"
      by (auto simp: only_forced_repeats_def)
    moreover from that have "inferred ! i \<in> set (take j inferred)"
      by (metis length_take min.absorb2 less_imp_le nth_mem nth_take order_less_trans)
    ultimately show ?thesis by (metis imageI)
  qed
  then have "\<forall>i < length inferred. \<forall>j < length inferred.
      i \<noteq> j \<longrightarrow> timestep (inferred ! i) \<noteq> timestep (inferred ! j)"
    by (metis nat_neq_iff)
  then show ?thesis
    by (simp add: distinct_conv_nth)
qed

lemma serve_example:
  "serve sim example_pipeline (Ready example_server)
     [CallSendObservations (example_obs 5 forced), CallGetActions,
      CallSendObservations (example_obs 5 forced), CallGetActions,
      CallSendObservations (example_obs 6 forced), CallGetActions]
   = (if forced then (example_server\<lparr>predicted_timesteps := {5, 6},
                        last_processed_obs := Some (example_obs 6 forced)\<rparr>,
                      [example_obs 5 forced, example_obs 5 forced, example_obs 6 forced])
      else if sim (example_obs 6 False) (example_obs 5 False)
        then (example_server\<lparr>predicted_timesteps := {5},
                        last_processed_obs := Some (example_obs 5 forced)\<rparr>,
              [example_obs 5 forced])
      else (example_server\<lparr>predicted_timesteps := {5, 6},
                        last_processed_obs := Some (example_obs 6 forced)\<rparr>,
            [example_obs 5 forced, example_obs 6 forced]))"
  by (auto simp: Ready_def reset_server_def example_server_def example_pipeline_def example_obs_def
      SendObservations_def enqueue_observation_def obs_sanity_checks_def queue_maxsize_def
      GetActions_def predict_action_chunk_timed_def get_action_chunk_def Let_def)

lemma time_action_chunk_nth:
  "time_action_chunk cfg t_0 chunk i_0 =
     map (\<lambda>i. \<lparr>timestamp = t_0 + real i * environment_dt cfg, timestep = i_0 + int i,
               action = chunk ! i\<rparr>) [0..<length chunk]"
  by (rule nth_equalityI) (simp_all add: time_action_chunk_def nth_enumerate_eq)

lemma test_arrays:
  "test_timestep_arange = [10, 11, 12, 13, 14, 15, 16, 17, 18, 19]"
  "test_timestamp = [10 / 100, 12 / 100, 14 / 100, 16 / 100, 18 / 100,
                     20 / 100, 22 / 100, 24 / 100, 26 / 100, 28 / 100]"
  by (simp_all add: test_timestep_arange_def test_timestamp_def test_time_delta_def
        test_t_0_def test_environment_dt_def test_i_0_def test_chunk_size_def np_arange_def
        upt_rec numeral_eq_Suc)

lemma serve_failing:
  "snd (serve sim failing_pipeline (Ready example_server)
     [CallSendObservations (example_obs 5 False), CallGetActions,
      CallSendObservations (example_obs 5 False), CallGetActions])
   = [example_obs 5 False, example_obs 5 False]"
  by (simp add: Ready_def reset_server_def example_server_def example_pipeline_def example_obs_def
      failing_pipeline_def
      SendObservations_def enqueue_observation_def obs_sanity_checks_def queue_maxsize_def
      GetActions_def predict_action_chunk_timed_def get_action_chunk_def Let_def)

lemma serve_mixed:
  "snd (serve (\<lambda>a b. False) example_pipeline (Ready example_server)
     [CallSendObservations (example_obs 5 True), CallGetActions,
      CallSendObservations (example_obs 5 False), CallGetActions,
      CallSendObservations (example_obs 5 True), CallGetActions,
      CallSendObservations (example_obs 6 False), CallGetActions])
   = [example_obs 5 True, example_obs 5 True, example_obs 6 False]"
  by (simp add: Ready_def reset_server_def example_server_def example_pipeline_def example_obs_def
      SendObservations_def enqueue_observation_def obs_sanity_checks_def queue_maxsize_def
      GetActions_def predict_action_chunk_timed_def get_action_chunk_def Let_def)

section \<open>Properties of the chunk merge\<close>

lemma dom_current_action_queue:
  "dom (foldl (\<lambda>d a. d(timestep a \<mapsto> action a)) d0 q) = dom d0 \<union> timestep ` set q"
  by (induction q arbitrary: d0) auto

lemma aggregate_loop_eq:
  "aggregate_loop latest cur f future incoming
     = future @ map (merged_item cur f) (filter (\<lambda>n. latest < timestep n) incoming)"
proof (induction incoming arbitrary: future)
  case Nil
  then show ?case by simp
next
  case (Cons n incoming)
  show ?case
  proof (cases "timestep n \<le> latest")
    case True
    with Cons show ?thesis by simp
  next
    case False
    then have l: "latest < timestep n" by simp
    show ?thesis
    proof (cases "cur (timestep n)")
      case None
      with False l Cons [of "future @ [n]"] show ?thesis
        by (simp add: merged_item_def)
    next
      case (Some old)
      with False l
        Cons [of "future @ [\<lparr>timestamp = timestamp n, timestep = timestep n,
                              action = f old (action n)\<rparr>]"]
      show ?thesis
        by (simp add: merged_item_def)
    qed
  qed
qed

lemma merged_item_default: "merged_item cur (\<lambda>x1 x2. x2) n = n"
  by (cases n) (simp add: merged_item_def split: option.splits)

lemma timestep_merged_item: "timestep (merged_item cur f n) = timestep n"
  by (simp add: merged_item_def split: option.splits)

section \<open>Claims about the prefix weight builder\<close>

text \<open>
  C5, as the code has it. For all integers \<open>start\<close>, \<open>end\<close>, \<open>total\<close> with
  \<open>0 \<le> min(start, end)\<close> and \<open>0 \<le> total\<close>, and with \<open>s = min(start, end)\<close>, the LINEAR
  schedule returns a vector of length \<open>total\<close>: 1 on \<open>[0, s)\<close> (cut at \<open>total\<close>), then the
  inner points of \<open>linspace(1, 0, min(end, total) - s + 2)\<close>, a strictly decreasing ramp with
  values strictly between 0 and 1, then 0 on \<open>[end, total)\<close>. When \<open>end \<le> total\<close> this is the
  schedule of the specification, and \<open>weights(2, 6, 8) = [1, 1, 0.8, 0.6, 0.4, 0.2, 0, 0]\<close>.
\<close>

theorem linear_prefix_weights:
  assumes "0 \<le> min start end" and "0 \<le> total'"
  shows "\<exists>ramp w.
           ramp = slice_1_m1 (torch_linspace 1 0 (nat (min end total' - min start end) + 2))
         \<and> w = replicate (nat (min (min start end) total')) 1 @ ramp
                 @ replicate (nat (total' - end)) 0
         \<and> get_prefix_weights (cfg\<lparr>prefix_attention_schedule := LINEAR\<rparr>) start end total' = Inr w
         \<and> length w = nat total'
         \<and> length ramp = nat (min end total' - min start end)
         \<and> sorted_wrt (\<lambda>a b. b < a) ramp
         \<and> (\<forall>r \<in> set ramp. 0 < r \<and> r < 1)
         \<and> (end \<le> total' \<longrightarrow> w = linear_schedule_spec start end total')
         \<and> get_prefix_weights (cfg\<lparr>prefix_attention_schedule := LINEAR\<rparr>) 2 6 8
               = Inr [1, 1, 4/5, 3/5, 2/5, 1/5, 0, 0]"
proof -
  let ?n = "nat (min end total' - min start end)"
  let ?ramp = "slice_1_m1 (torch_linspace 1 0 (?n + 2))"
  let ?w = "replicate (nat (min (min start end) total')) 1 @ ?ramp
                 @ replicate (nat (total' - end)) 0"
  have len_ramp: "length ?ramp = ?n"
    by (simp add: length_ramp)
  have f1: "get_prefix_weights (cfg\<lparr>prefix_attention_schedule := LINEAR\<rparr>) start end total' = Inr ?w"
    using assms by (intro linear_vec) simp_all
  have f2: "length ?w = nat total'"
    unfolding length_append len_ramp length_replicate using ramp_fits [OF assms] .
  have f3: "sorted_wrt (\<lambda>a b. b < a) ?ramp"
    using ramp_decreasing [of ?n] by simp
  have f4: "\<forall>r \<in> set ?ramp. 0 < r \<and> r < 1"
    using ramp_between [of ?n] by simp
  have f5: "end \<le> total' \<longrightarrow> ?w = linear_schedule_spec start end total'"
  proof
    assume e: "end \<le> total'"
    have "0 \<le> min start end" "min start end \<le> end" "end \<le> total'"
      using assms e by simp_all
    from spec_eq_aux [OF this] e show "?w = linear_schedule_spec start end total'"
      by (simp add: linear_schedule_spec_def Let_def min_absorb1 min.absorb3)
  qed
  have f6: "get_prefix_weights (cfg\<lparr>prefix_attention_schedule := LINEAR\<rparr>) 2 6 8
               = Inr [1, 1, 4/5, 3/5, 2/5, 1/5, 0, 0]"
    by (simp add: get_prefix_weights_def linweights_def add_trailing_zeros_def
          add_leading_ones_def slice_1_m1_def torch_linspace_def Let_def upt_rec numeral_eq_Suc)
  show ?thesis
    apply (rule exI [of _ ?ramp])
    apply (rule exI [of _ ?w])
    using f1 f2 len_ramp f3 f4 f5 f6
    by (intro conjI) (rule refl | assumption)+
qed

text \<open>The theorem at \<open>start = 1\<close>, \<open>end = 5\<close>, \<open>total = 3\<close>: the ramp is fitted into \<open>[1, 3)\<close>.\<close>

theorem linear_prefix_weights_witness:
  "0 \<le> min (1::int) 5 \<and> (0::int) \<le> 3
   \<and> get_prefix_weights (example_rtc_config\<lparr>prefix_attention_schedule := LINEAR\<rparr>) 1 5 3
       = Inr [1, 2/3, 1/3]
   \<and> sorted_wrt (\<lambda>a b. b < a) [2/3, 1/3 :: real]"
proof -
  have h: "0 \<le> min (1::int) 5" "(0::int) \<le> 3" by simp_all
  have r: "slice_1_m1 (torch_linspace 1 0 (nat (min 5 3 - min 1 5) + 2)) = [2/3, 1/3]"
    by (simp add: slice_1_m1_def torch_linspace_def upt_rec numeral_eq_Suc)
  from linear_prefix_weights [OF h, of example_rtc_config] show ?thesis
    unfolding r by (simp add: numeral_eq_Suc)
qed

text \<open>
  C5 as stated fails when \<open>end > total\<close>: the code fits the ramp between \<open>start\<close> and
  \<open>total\<close>, so \<open>weights(1, 5, 3)\<close> is \<open>[1, 2/3, 1/3]\<close> and not the cut \<open>[1, 0.8, 0.6]\<close> of
  \<open>linspace(1, 0, 6)\<close>. It also fails for a negative \<open>start\<close>, where the vector has more
  than \<open>total\<close> entries.
\<close>

theorem linear_prefix_weights_counterexample:
  "get_prefix_weights (example_rtc_config\<lparr>prefix_attention_schedule := LINEAR\<rparr>) 1 5 3
     = Inr [1, 2/3, 1/3]
   \<and> linear_schedule_spec 1 5 3 = [1, 4/5, 3/5]
   \<and> get_prefix_weights (example_rtc_config\<lparr>prefix_attention_schedule := LINEAR\<rparr>) 1 5 3
     \<noteq> Inr (linear_schedule_spec 1 5 3)
   \<and> get_prefix_weights (example_rtc_config\<lparr>prefix_attention_schedule := LINEAR\<rparr>) (- 1) 2 3
     = Inr [3/4, 1/2, 1/4, 0]
   \<and> length [3/4, 1/2, 1/4, 0 :: real] \<noteq> nat 3"
  by (simp add: get_prefix_weights_def linweights_def add_trailing_zeros_def add_leading_ones_def
        linear_schedule_spec_def slice_1_m1_def torch_linspace_def Let_def upt_rec numeral_eq_Suc)

text \<open>
  C6, as the code has it. For all non-negative integers \<open>start\<close>, \<open>end\<close>, \<open>total\<close>, the
  ZEROS schedule returns a vector of length \<open>total\<close> whose entries sum to
  \<open>min(min(start, end), total)\<close>, the ONES schedule one whose entries sum to
  \<open>min(end, total)\<close>, and \<open>weights(3, 7, 10, ZEROS) = [1,1,1,0,0,0,0,0,0,0]\<close>.
\<close>

theorem zeros_ones_weight_sums:
  assumes "0 \<le> start" and "0 \<le> end" and "0 \<le> total'"
  shows "(\<exists>w. get_prefix_weights (cfg\<lparr>prefix_attention_schedule := ZEROS\<rparr>) start end total' = Inr w
            \<and> length w = nat total'
            \<and> sum_list w = real_of_int (min (min start end) total'))
       \<and> (\<exists>w. get_prefix_weights (cfg\<lparr>prefix_attention_schedule := ONES\<rparr>) start end total' = Inr w
            \<and> length w = nat total'
            \<and> sum_list w = real_of_int (min end total'))
       \<and> get_prefix_weights (cfg\<lparr>prefix_attention_schedule := ZEROS\<rparr>) 3 7 10
            = Inr [1, 1, 1, 0, 0, 0, 0, 0, 0, 0]"
proof -
  have m: "0 \<le> min start end" using assms by simp
  have z: "get_prefix_weights (cfg\<lparr>prefix_attention_schedule := ZEROS\<rparr>) start end total'
     = Inr (replicate (nat (min (min start end) total')) 1
            @ replicate (nat (total' - min (min start end) total')) 0)"
    using m assms(3) by (intro zeros_vec) simp_all
  have lz: "length (replicate (nat (min (min start end) total')) (1::real)
            @ replicate (nat (total' - min (min start end) total')) 0) = nat total'"
    using assms by simp
  have sz: "sum_list (replicate (nat (min (min start end) total')) (1::real)
            @ replicate (nat (total' - min (min start end) total')) 0)
            = real_of_int (min (min start end) total')"
    using assms by (simp add: sum_list_replicate)
  have o: "get_prefix_weights (cfg\<lparr>prefix_attention_schedule := ONES\<rparr>) start end total'
     = Inr (replicate (nat (min end total')) 1 @ replicate (nat (total' - min end total')) 0)"
    using assms(2,3) by (intro ones_vec) simp_all
  have lo: "length (replicate (nat (min end total')) (1::real)
      @ replicate (nat (total' - min end total')) 0) = nat total'"
    using assms by simp
  have so: "sum_list (replicate (nat (min end total')) (1::real)
      @ replicate (nat (total' - min end total')) 0) = real_of_int (min end total')"
    using assms by (simp add: sum_list_replicate)
  have ex: "get_prefix_weights (cfg\<lparr>prefix_attention_schedule := ZEROS\<rparr>) 3 7 10
            = Inr [1, 1, 1, 0, 0, 0, 0, 0, 0, 0]"
    by (simp add: get_prefix_weights_def torch_zeros_def assign_upto_def slice_bound_def
          numeral_eq_Suc)
  show ?thesis
    unfolding z o using lz sz lo so ex
    by (intro conjI exI) (rule refl | assumption)+
qed

text \<open>The theorem at \<open>start = 5\<close>, \<open>end = 2\<close>, \<open>total = 10\<close>: both sums are 2.\<close>

theorem zeros_ones_weight_sums_witness:
  "(0::int) \<le> 5 \<and> (0::int) \<le> 2 \<and> (0::int) \<le> 10
   \<and> (\<exists>w. get_prefix_weights (example_rtc_config\<lparr>prefix_attention_schedule := ZEROS\<rparr>) 5 2 10 = Inr w
          \<and> sum_list w = 2)
   \<and> (\<exists>w. get_prefix_weights (example_rtc_config\<lparr>prefix_attention_schedule := ONES\<rparr>) 5 2 10 = Inr w
          \<and> sum_list w = 2)"
proof -
  have h: "(0::int) \<le> 5" "(0::int) \<le> 2" "(0::int) \<le> 10" by simp_all
  from zeros_ones_weight_sums [OF h, of example_rtc_config]
  obtain w v where
    "get_prefix_weights (example_rtc_config\<lparr>prefix_attention_schedule := ZEROS\<rparr>) 5 2 10 = Inr w"
    "sum_list w = real_of_int (min (min 5 2) 10)"
    "get_prefix_weights (example_rtc_config\<lparr>prefix_attention_schedule := ONES\<rparr>) 5 2 10 = Inr v"
    "sum_list v = real_of_int (min 2 10)"
    by blast
  then show ?thesis by simp
qed

text \<open>
  C6 as stated, for all integers, fails on negative bounds: Python reads a negative slice
  bound from the end of the vector, so \<open>weights(-1, 3, 5, ZEROS)\<close> sums to 4 and
  \<open>weights(0, -1, 3, ONES)\<close> sums to 2.
\<close>

theorem zeros_ones_weight_sums_counterexample:
  "get_prefix_weights (example_rtc_config\<lparr>prefix_attention_schedule := ZEROS\<rparr>) (- 1) 3 5
     = Inr [1, 1, 1, 1, 0]
   \<and> sum_list [1, 1, 1, 1, 0 :: real] \<noteq> real_of_int (min (min (- 1) 3) 5)
   \<and> get_prefix_weights (example_rtc_config\<lparr>prefix_attention_schedule := ONES\<rparr>) 0 (- 1) 3
     = Inr [1, 1, 0]
   \<and> sum_list [1, 1, 0 :: real] \<noteq> real_of_int (min (- 1) 3)"
  by (simp add: get_prefix_weights_def torch_zeros_def torch_ones_def assign_upto_def
        assign_from_def slice_bound_def numeral_eq_Suc)

section \<open>Claims about the guidance weight\<close>

text \<open>
  C2. At \<open>tau = 1\<close>, that is \<open>time = 0\<close>, the factor \<open>(1 - tau) / tau\<close> is 0 and the factor
  \<open>((1 - tau)\<^sup>2 + tau\<^sup>2) / (1 - tau)\<^sup>2\<close> is \<open>+\<infinity>\<close>, so their product is NaN. The code's
  \<^verbatim>\<open>nan_to_num\<close> sets \<open>posinf\<close> only and so replaces the NaN by zero: the weight is
  \<open>min 0 max_guidance_weight\<close>, which is 0 and not \<open>max_guidance_weight = 10\<close> under the
  example configuration.
\<close>

theorem guidance_weight_nan_is_zero:
  "guidance_weight cfg 0 = min 0 (max_guidance_weight cfg)
   \<and> guidance_weight example_rtc_config 0 = 0
   \<and> max_guidance_weight example_rtc_config = 10"
  by (simp add: guidance_weight_time_zero example_rtc_config_def)

text \<open>
  C3. For every \<open>tau\<close> in the closed interval \<open>[0, 1]\<close>, with \<open>time = 1 - tau\<close>, and every
  configuration with \<open>max_guidance_weight \<ge> 0\<close>, the guidance weight \<open>g\<close> satisfies
  \<open>0 \<le> g \<le> max_guidance_weight\<close>.
\<close>

theorem guidance_weight_bounds:
  assumes "0 \<le> tau" and "tau \<le> 1" and "0 \<le> max_guidance_weight cfg"
  shows "0 \<le> guidance_weight cfg (1 - tau)
       \<and> guidance_weight cfg (1 - tau) \<le> max_guidance_weight cfg"
proof -
  consider "tau = 0" | "tau = 1" | "0 < tau" "tau < 1"
    using assms by linarith
  then show ?thesis
  proof cases
    case 1
    then show ?thesis using assms by (simp add: guidance_weight_time_one)
  next
    case 2
    then show ?thesis using assms by (simp add: guidance_weight_time_zero)
  next
    case 3
    let ?t = "1 - tau"
    have t: "0 < ?t" "?t < 1" using 3 by simp_all
    have "0 \<le> ?t / (1 - ?t) * ((?t\<^sup>2 + (1 - ?t)\<^sup>2) / ?t\<^sup>2)"
      using t by (intro mult_nonneg_nonneg divide_nonneg_nonneg add_nonneg_nonneg) simp_all
    moreover have "guidance_weight cfg ?t
       = min (?t / (1 - ?t) * ((?t\<^sup>2 + (1 - ?t)\<^sup>2) / ?t\<^sup>2)) (max_guidance_weight cfg)"
      using t by (intro guidance_weight_interior) simp_all
    ultimately show ?thesis using assms by simp
  qed
qed

text \<open>The theorem at \<open>tau = 1/2\<close> under the example configuration, where \<open>g = 2\<close>.\<close>

theorem guidance_weight_bounds_witness:
  "(0::real) \<le> 1 / 2 \<and> (1::real) / 2 \<le> 1 \<and> 0 \<le> max_guidance_weight example_rtc_config
   \<and> guidance_weight example_rtc_config (1 - 1 / 2) = 2
   \<and> 0 \<le> guidance_weight example_rtc_config (1 - 1 / 2)
   \<and> guidance_weight example_rtc_config (1 - 1 / 2) \<le> max_guidance_weight example_rtc_config"
proof -
  have h: "(0::real) \<le> 1 / 2" "(1::real) / 2 \<le> 1" "0 \<le> max_guidance_weight example_rtc_config"
    by (simp_all add: example_rtc_config_def)
  have v: "guidance_weight example_rtc_config (1 - 1 / 2) = 2"
    by (simp add: guidance_weight_interior example_rtc_config_def power2_eq_square)
  from guidance_weight_bounds [OF h] h v show ?thesis
    by blast
qed

section \<open>Claims about the guided denoise step\<close>

text \<open>
  C4. For every input \<open>x_t\<close>, time and base denoiser, \<open>denoise_step\<close> with no previous chunk
  returns exactly the base denoiser's output on \<open>x_t\<close>: no correction is applied, and
  neither the input nor the output is reshaped.
\<close>

theorem no_prefix_no_guidance:
  "denoise_step cfg x_t None inference_delay time f eh = Inr (forward f x_t)"
  by (simp add: denoise_step_def)

text \<open>The theorem at a two-step chunk without batch dimension.\<close>

theorem no_prefix_no_guidance_witness:
  "denoise_step example_rtc_config (T2 [[1], [2]]) None 0 (1 / 2) example_denoiser None
     = Inr (T2 [[2], [4]])"
  using no_prefix_no_guidance [of example_rtc_config "T2 [[1], [2]]" 0 "1 / 2" example_denoiser None]
  by (simp add: example_denoiser_def)




section \<open>Claims about the policy server\<close>

text \<open>
  C7, as the code has it. Within one session, that is from the state that \<^verbatim>\<open>Ready\<close> leaves,
  for every sequence of \<^verbatim>\<open>SendObservations\<close> and \<^verbatim>\<open>GetActions\<close> calls handled one at a time,
  with a pre-processing that does not raise: every observation that is passed to
  \<^verbatim>\<open>_predict_action_chunk\<close> with a timestep that an earlier inference of the session had
  carries \<open>must_go = true\<close>. So the server runs inference twice for a timestep only on a
  forced observation, and the inferred observations have pairwise distinct timesteps when
  none of them is forced.
\<close>

theorem networked_dedup:
  assumes "\<forall>obs. \<exists>p. preprocess pl obs = Inr p"
  shows "(\<forall>pre obs post.
            snd (serve sim pl (Ready s) calls) = pre @ obs # post
            \<longrightarrow> must_go obs \<or> timestep obs \<notin> timestep ` set pre)
       \<and> (list_all (\<lambda>obs. \<not> must_go obs) (snd (serve sim pl (Ready s) calls))
            \<longrightarrow> distinct (map timestep (snd (serve sim pl (Ready s) calls))))"
proof -
  have r: "only_forced_repeats (snd (serve sim pl (Ready s) calls))"
    using serve_inv [OF Ready_inv assms] by simp
  show ?thesis
  proof (intro conjI allI impI)
    fix pre obs post
    assume "snd (serve sim pl (Ready s) calls) = pre @ obs # post"
    with r show "must_go obs \<or> timestep obs \<notin> timestep ` set pre"
      by (rule only_forced_repeats_split)
  next
    assume "list_all (\<lambda>obs. \<not> must_go obs) (snd (serve sim pl (Ready s) calls))"
    with r show "distinct (map timestep (snd (serve sim pl (Ready s) calls)))"
      by (rule only_forced_repeats_distinct)
  qed
qed

text \<open>
  The theorem at a session of four observations, each followed by \<^verbatim>\<open>GetActions\<close>: timestep 5
  forced, timestep 5 unforced, timestep 5 forced, timestep 6 unforced. The unforced
  repetition is filtered out, the forced one is inferred again.
\<close>

theorem networked_dedup_witness:
  "(\<forall>obs. \<exists>p. preprocess example_pipeline obs = Inr p)
   \<and> snd (serve (\<lambda>a b. False) example_pipeline (Ready example_server)
        [CallSendObservations (example_obs 5 True), CallGetActions,
         CallSendObservations (example_obs 5 False), CallGetActions,
         CallSendObservations (example_obs 5 True), CallGetActions,
         CallSendObservations (example_obs 6 False), CallGetActions])
       = [example_obs 5 True] @ example_obs 5 True # [example_obs 6 False]
   \<and> (must_go (example_obs 5 True)
       \<or> timestep (example_obs 5 True) \<notin> timestep ` set [example_obs 5 True])
   \<and> timestep (example_obs 5 True) \<in> timestep ` set [example_obs 5 True]"
proof -
  have h: "\<forall>obs. \<exists>p. preprocess example_pipeline obs = Inr p"
    by (simp add: example_pipeline_def)
  have v: "snd (serve (\<lambda>a b. False) example_pipeline (Ready example_server)
        [CallSendObservations (example_obs 5 True), CallGetActions,
         CallSendObservations (example_obs 5 False), CallGetActions,
         CallSendObservations (example_obs 5 True), CallGetActions,
         CallSendObservations (example_obs 6 False), CallGetActions])
       = [example_obs 5 True] @ example_obs 5 True # [example_obs 6 False]"
    by (subst serve_mixed) simp
  from networked_dedup [OF h, of "\<lambda>a b. False" example_server
      "[CallSendObservations (example_obs 5 True), CallGetActions,
        CallSendObservations (example_obs 5 False), CallGetActions,
        CallSendObservations (example_obs 5 True), CallGetActions,
        CallSendObservations (example_obs 6 False), CallGetActions]"] v
  have "must_go (example_obs 5 True)
       \<or> timestep (example_obs 5 True) \<notin> timestep ` set [example_obs 5 True]"
    by blast
  with h v show ?thesis by simp
qed

text \<open>
  C7 as stated, with observations that carry \<open>must_go = true\<close>, fails: \<^verbatim>\<open>must_go\<close> is the
  first disjunct of the acceptance test, before the set of predicted timesteps is looked
  at. A session with forced observations runs inference for timestep 5 twice. So does a
  session of unforced observations when the pre-processing raises: \<^verbatim>\<open>last_processed_obs\<close>
  is still \<^verbatim>\<open>None\<close> then, and the next observation is accepted whatever its timestep.
\<close>

theorem networked_dedup_counterexample:
  "map timestep (snd (serve (\<lambda>a b. True) example_pipeline (Ready example_server)
        [CallSendObservations (example_obs 5 True), CallGetActions,
         CallSendObservations (example_obs 5 True), CallGetActions,
         CallSendObservations (example_obs 6 True), CallGetActions])) = [5, 5, 6]
   \<and> \<not> distinct [5, 5, 6 :: int]
   \<and> map timestep (snd (serve (\<lambda>a b. True) failing_pipeline (Ready example_server)
        [CallSendObservations (example_obs 5 False), CallGetActions,
         CallSendObservations (example_obs 5 False), CallGetActions])) = [5, 5]
   \<and> \<not> distinct [5, 5 :: int]"
  by (subst serve_example, subst serve_failing) (simp add: example_obs_def)

text \<open>
  C8, as the code has it. \<^verbatim>\<open>_enqueue_observation\<close> accepts an observation if and only if
  (a) its \<open>must_go\<close> flag is true, or (b) no observation has gone through inference yet
  (\<^verbatim>\<open>last_processed_obs\<close> is \<^verbatim>\<open>None\<close>), or (c) its timestep is not in the set of predicted
  timesteps and it is not judged similar to the last observation that went through
  inference. An accepted observation is put at the end of the queue, after the oldest
  entry has been removed from a queue that is not empty; otherwise the result is false and
  the state is unchanged.
\<close>

theorem acceptance_condition:
  "enqueue_observation sim s obs =
     (if must_go obs
         \<or> (case last_processed_obs s of
               None \<Rightarrow> True
             | Some previous_obs \<Rightarrow>
                 timestep obs \<notin> predicted_timesteps s \<and> \<not> sim obs previous_obs)
      then (True, s\<lparr>observation_queue :=
                     (if observation_queue s = [] then [] else tl (observation_queue s)) @ [obs]\<rparr>)
      else (False, s))"
  by (cases "observation_queue s")
     (auto simp: enqueue_observation_def obs_sanity_checks_def queue_maxsize_def Let_def
           split: option.splits)

text \<open>
  The theorem at a similarity test that holds of every pair: an unforced observation is
  accepted while nothing has been processed, and takes the place of the queued one; it is
  rejected once an observation has been processed.
\<close>

theorem acceptance_condition_witness:
  "enqueue_observation (\<lambda>a b. True)
      (example_server\<lparr>observation_queue := [example_obs 5 False]\<rparr>) (example_obs 6 False)
     = (True, example_server\<lparr>observation_queue := [example_obs 6 False]\<rparr>)
   \<and> enqueue_observation (\<lambda>a b. True)
      (example_server\<lparr>last_processed_obs := Some (example_obs 5 False)\<rparr>) (example_obs 6 False)
     = (False, example_server\<lparr>last_processed_obs := Some (example_obs 5 False)\<rparr>)"
  using acceptance_condition [of "\<lambda>a b. True"
          "example_server\<lparr>observation_queue := [example_obs 5 False]\<rparr>" "example_obs 6 False"]
        acceptance_condition [of "\<lambda>a b. True"
          "example_server\<lparr>last_processed_obs := Some (example_obs 5 False)\<rparr>" "example_obs 6 False"]
  by (simp add: example_server_def example_obs_def)

text \<open>
  C8 as stated fails: the code compares with the last processed observation, not the
  last accepted one. The observation of timestep 5 and content 0 is accepted and goes
  through inference; the one of timestep 6 and content 1 is accepted and stays queued;
  the one of timestep 7 and content 1 is similar to it, the last accepted observation, is
  not forced, and is accepted by the code all the same, where the condition of the
  specification is false.
\<close>

theorem acceptance_condition_counterexample:
  "enqueue_observation example_similar (Ready example_server) (example_view 5 0)
     = (True, example_server\<lparr>observation_queue := [example_view 5 0]\<rparr>)
   \<and> fst (snd (GetActions example_pipeline
                 (example_server\<lparr>observation_queue := [example_view 5 0]\<rparr>)))
     = example_processed
   \<and> enqueue_observation example_similar example_processed (example_view 6 1)
     = (True, example_processed\<lparr>observation_queue := [example_view 6 1]\<rparr>)
   \<and> enqueue_observation example_similar
        (example_processed\<lparr>observation_queue := [example_view 6 1]\<rparr>) (example_view 7 1)
     = (True, example_processed\<lparr>observation_queue := [example_view 7 1]\<rparr>)
   \<and> \<not> accepted_spec example_similar
        (predicted_timesteps (example_processed\<lparr>observation_queue := [example_view 6 1]\<rparr>))
        [example_view 5 0, example_view 6 1] (example_view 7 1)"
  by (simp add: enqueue_observation_def obs_sanity_checks_def queue_maxsize_def Let_def
        accepted_spec_def example_server_def example_view_def example_similar_def
        example_processed_def Ready_def reset_server_def GetActions_def
        predict_action_chunk_timed_def get_action_chunk_def example_pipeline_def)

text \<open>
  C9. For every observation timestamp \<open>t_0\<close> and timestep \<open>i_0\<close>, every chunk and every
  \<open>fps > 0\<close>, \<^verbatim>\<open>_time_action_chunk\<close> gives the \<open>i\<close>-th action the timestep \<open>i_0 + i\<close> and the
  timestamp \<open>t_0 + i * (1 / fps)\<close> and keeps the actions in order; with \<open>i_0 = 10\<close>, a chunk
  of 10 actions, \<open>t_0 = 0.1\<close> and \<open>fps = 50\<close>, the timesteps are 10 to 19 and the timestamps
  are 0.10, 0.12 up to 0.28, the arrays that \<^verbatim>\<open>test.py\<close> computes.
\<close>

theorem action_timestamping:
  assumes "0 < fps cfg"
  shows "map timestep (time_action_chunk cfg t_0 chunk i_0)
           = map (\<lambda>i. i_0 + int i) [0..<length chunk]
       \<and> map timestamp (time_action_chunk cfg t_0 chunk i_0)
           = map (\<lambda>i. t_0 + real i * (1 / real_of_int (fps cfg))) [0..<length chunk]
       \<and> map action (time_action_chunk cfg t_0 chunk i_0) = chunk
       \<and> (fps cfg = 50 \<and> length chunk = 10 \<longrightarrow>
            map timestep (time_action_chunk cfg (1 / 10) chunk 10)
              = [10, 11, 12, 13, 14, 15, 16, 17, 18, 19]
          \<and> map timestep (time_action_chunk cfg (1 / 10) chunk 10) = test_timestep_arange
          \<and> map timestamp (time_action_chunk cfg (1 / 10) chunk 10)
              = [10 / 100, 12 / 100, 14 / 100, 16 / 100, 18 / 100,
                 20 / 100, 22 / 100, 24 / 100, 26 / 100, 28 / 100]
          \<and> map timestamp (time_action_chunk cfg (1 / 10) chunk 10) = test_timestamp)"
proof -
  have a: "map timestep (time_action_chunk cfg t chunk i)
           = map (\<lambda>k. i + int k) [0..<length chunk]" for t i
    by (simp add: time_action_chunk_nth comp_def)
  have b: "map timestamp (time_action_chunk cfg t chunk i)
           = map (\<lambda>k. t + real k * (1 / real_of_int (fps cfg))) [0..<length chunk]" for t i
    by (simp add: time_action_chunk_nth comp_def environment_dt_def)
  have c: "map action (time_action_chunk cfg t_0 chunk i_0) = chunk"
    by (simp add: time_action_chunk_nth comp_def map_nth)
  have d: "map timestep (time_action_chunk cfg (1 / 10) chunk 10)
              = [10, 11, 12, 13, 14, 15, 16, 17, 18, 19]"
    if "length chunk = 10"
    unfolding a that by (simp add: upt_rec numeral_eq_Suc)
  have e: "map timestamp (time_action_chunk cfg (1 / 10) chunk 10)
              = [10 / 100, 12 / 100, 14 / 100, 16 / 100, 18 / 100,
                 20 / 100, 22 / 100, 24 / 100, 26 / 100, 28 / 100]"
    if "fps cfg = 50" "length chunk = 10"
    unfolding b that by (simp add: upt_rec numeral_eq_Suc)
  from a [of t_0 i_0] b [of t_0 i_0] c d e show ?thesis
    by (simp add: test_arrays)
qed

text \<open>The theorem at the scenario itself, with the actions 0 to 9.\<close>

theorem action_timestamping_witness:
  "0 < fps (config example_server)
   \<and> fps (config example_server) = 50 \<and> length [0, 1, 2, 3, 4, 5, 6, 7, 8, 9 :: nat] = 10
   \<and> map timestep
         (time_action_chunk (config example_server) (1 / 10) [0, 1, 2, 3, 4, 5, 6, 7, 8, 9 :: nat] 10)
       = [10, 11, 12, 13, 14, 15, 16, 17, 18, 19]
   \<and> map timestamp
         (time_action_chunk (config example_server) (1 / 10) [0, 1, 2, 3, 4, 5, 6, 7, 8, 9 :: nat] 10)
       = [10 / 100, 12 / 100, 14 / 100, 16 / 100, 18 / 100,
          20 / 100, 22 / 100, 24 / 100, 26 / 100, 28 / 100]
   \<and> map action
         (time_action_chunk (config example_server) (1 / 10) [0, 1, 2, 3, 4, 5, 6, 7, 8, 9 :: nat] 10)
       = [0, 1, 2, 3, 4, 5, 6, 7, 8, 9]"
proof -
  have h: "0 < fps (config example_server)" by (simp add: example_server_def)
  have f: "fps (config example_server) = 50" by (simp add: example_server_def)
  have l: "length [0, 1, 2, 3, 4, 5, 6, 7, 8, 9 :: nat] = 10" by simp
  from action_timestamping [OF h, of "1 / 10" "[0, 1, 2, 3, 4, 5, 6, 7, 8, 9 :: nat]" 10] h f l
  show ?thesis by blast
qed

section \<open>Claims about the chunk merge of the robot client\<close>

text \<open>
  C1, as the code has it. The merge builds a new queue from the incoming list alone: an
  incoming action is dropped if its timestep is at most the latest executed timestep;
  otherwise it is appended as it is if no entry of the current queue has its timestep,
  and appended with the aggregate of the queued and the new action if one has (by default
  the new action). The new queue replaces the action queue, so its timesteps are those
  of the incoming list above the latest executed one, in order, and no other entry of the
  old queue is carried over.
\<close>

theorem client_chunk_merge:
  "action_queue (aggregate_action_queues s incoming (Some f))
     = map (merged_item (current_action_queue_of (action_queue s)) f)
         (filter (\<lambda>n. latest_action s < timestep n) incoming)
   \<and> action_queue (aggregate_action_queues s incoming None)
     = filter (\<lambda>n. latest_action s < timestep n) incoming
   \<and> dom (current_action_queue_of (action_queue s)) = timestep ` set (action_queue s)
   \<and> map timestep (action_queue (aggregate_action_queues s incoming agg))
     = filter (\<lambda>i. latest_action s < i) (map timestep incoming)"
proof -
  have a: "action_queue (aggregate_action_queues s incoming (Some f))
     = map (merged_item (current_action_queue_of (action_queue s)) f)
         (filter (\<lambda>n. latest_action s < timestep n) incoming)"
    by (simp add: aggregate_action_queues_def aggregate_loop_eq)
  have b: "action_queue (aggregate_action_queues s incoming None)
     = filter (\<lambda>n. latest_action s < timestep n) incoming"
    by (simp add: aggregate_action_queues_def aggregate_loop_eq merged_item_default [abs_def])
  have c: "dom (current_action_queue_of (action_queue s)) = timestep ` set (action_queue s)"
    by (simp add: current_action_queue_of_def dom_current_action_queue)
  have d: "map timestep (action_queue (aggregate_action_queues s incoming agg))
     = filter (\<lambda>i. latest_action s < i) (map timestep incoming)"
    by (simp add: aggregate_action_queues_def aggregate_loop_eq comp_def timestep_merged_item
          filter_map)
  from a b c d show ?thesis by simp
qed

text \<open>
  The theorem at a queue with timesteps 4 and 5, latest executed timestep 3, incoming
  timesteps 3, 5 and 6, and addition as aggregate: 3 is dropped, 5 is aggregated, 6 is
  appended, 4 is gone.
\<close>

theorem client_chunk_merge_witness:
  "action_queue (aggregate_action_queues example_client
       [example_action 3 30, example_action 5 51, example_action 6 60] (Some (\<lambda>x1 x2. x1 + x2)))
     = [example_action 5 101, example_action 6 60]"
proof -
  have d: "current_action_queue_of (action_queue example_client) = [4 \<mapsto> 40, 5 \<mapsto> 50]"
    by (simp add: current_action_queue_of_def example_client_def example_action_def)
  from client_chunk_merge [of example_client
      "[example_action 3 30, example_action 5 51, example_action 6 60]" "\<lambda>x1 x2. x1 + x2"]
  show ?thesis
    unfolding d by (simp add: merged_item_def example_client_def example_action_def)
qed

text \<open>
  C1 as stated fails in its last sentence: the queued entry of timestep 4 does not appear
  in the incoming list and is not in the queue after the merge.
\<close>

theorem client_chunk_merge_counterexample:
  "action_queue example_client = [example_action 4 40, example_action 5 50]
   \<and> latest_action example_client = 3
   \<and> action_queue (aggregate_action_queues example_client [example_action 5 51, example_action 6 60] None)
       = [example_action 5 51, example_action 6 60]
   \<and> 4 \<in> timestep ` set (action_queue example_client)
   \<and> 4 \<notin> timestep ` set [example_action 5 51, example_action 6 60]
   \<and> 4 \<notin> timestep ` set (action_queue
           (aggregate_action_queues example_client [example_action 5 51, example_action 6 60] None))"
  by (simp add: aggregate_action_queues_def current_action_queue_of_def example_client_def
        example_action_def)

end
